theory Spec2Isabelle
  imports Complex_Main
begin

section \<open>WorkoutTimer: step builder and run controller\<close>

text \<open>
  The development embeds the newest variant of the program in \<^verbatim>\<open>src/app.js\<close> (the part
  that starts at the second \<^verbatim>\<open>// Helpers\<close> banner, lines 458 to 1223): exercises carry an
  optional \<^verbatim>\<open>secondsOverride\<close>, the workout has a \<^verbatim>\<open>transitionRestSeconds\<close> field and the
  step types are \<^verbatim>\<open>"exercise"\<close>, \<^verbatim>\<open>"rest"\<close>, \<^verbatim>\<open>"circuit_rest"\<close> and \<^verbatim>\<open>"transition_rest"\<close>.
  The variant in \<^verbatim>\<open>src/unnamed/part_000\<close> has the same builder and timer engine, with the
  exercise step type spelled \<^verbatim>\<open>"work"\<close> and without the cue bookkeeping. The oldest variant
  (lines 1 to 457 of \<^verbatim>\<open>src/app.js\<close>) has exercises that are plain strings, no
  \<^verbatim>\<open>secondsOverride\<close> and no \<^verbatim>\<open>transitionRestSeconds\<close>; its step builder differs from the
  newest one and is embedded beside it, under names that end in \<open>Old\<close>.

  JavaScript numbers are modelled as mathematical integers (\<^typ>\<open>int\<close>), which is exact for
  every value up to \<open>2^53\<close> in magnitude. The countdown's subtraction is the one operation
  the program applies to a number a user can make as large as they like, so it is modelled with
  the rounding of double arithmetic (\<open>roundToDouble\<close>). Writes to the DOM, sound and speech
  are left out: they do not feed back into the values modelled here.
\<close>

subsection \<open>Data model\<close>

datatype stepType = Exercise | Rest | CircuitRest | TransitionRest

datatype circuitId = A | B

text \<open>An entry of \<^verbatim>\<open>getExercisesFromList\<close>: \<^verbatim>\<open>{ name, secondsOverride }\<close>, the override
  being \<^verbatim>\<open>null\<close> (\<open>None\<close>) or a number.\<close>

record exerciseSpec =
  name :: string
  secondsOverride :: "int option"

record step =
  stepType :: stepType
  label :: string
  durationSeconds :: int
  circuitId :: circuitId

record circuit =
  repeats :: int
  exercises :: "exerciseSpec list"

record circuitB = circuit +
  enabled :: bool

record workout =
  workSeconds :: int
  restBetweenExercisesSeconds :: int
  restBetweenCircuitsSeconds :: int
  transitionRestSeconds :: int
  circuitA :: circuit
  circuitB :: circuitB

subsection \<open>Build steps\<close>

text \<open>The three objects that \<^verbatim>\<open>buildStepsForCircuit\<close> pushes, and the one of \<^verbatim>\<open>buildSteps\<close>.\<close>

definition exerciseStep :: "circuitId \<Rightarrow> workout \<Rightarrow> exerciseSpec \<Rightarrow> step" where
  "exerciseStep c w ex =
     (let duration = (case secondsOverride ex of Some n \<Rightarrow> n | None \<Rightarrow> workSeconds w)
      in \<lparr>stepType = Exercise, label = name ex, durationSeconds = duration, circuitId = c\<rparr>)"

definition restStep :: "circuitId \<Rightarrow> workout \<Rightarrow> step" where
  "restStep c w =
     \<lparr>stepType = Rest, label = ''Rest'',
      durationSeconds = restBetweenExercisesSeconds w, circuitId = c\<rparr>"

definition circuitRestStep :: "circuitId \<Rightarrow> workout \<Rightarrow> step" where
  "circuitRestStep c w =
     \<lparr>stepType = CircuitRest, label = ''Circuit rest'',
      durationSeconds = restBetweenCircuitsSeconds w, circuitId = c\<rparr>"

definition transitionRestStep :: "workout \<Rightarrow> step" where
  "transitionRestStep w =
     \<lparr>stepType = TransitionRest, label = ''Transition rest'',
      durationSeconds = transitionRestSeconds w, circuitId = B\<rparr>"

text \<open>The inner loop \<^verbatim>\<open>for (let i = 0; i < exercises.length; i++)\<close>, as a recursion on the
  exercises still to visit; \<^verbatim>\<open>isLastExercise\<close> holds when none is left after the current one.\<close>

fun exerciseLoop :: "circuitId \<Rightarrow> workout \<Rightarrow> exerciseSpec list \<Rightarrow> step list" where
  "exerciseLoop c w [] = []"
| "exerciseLoop c w (ex # rest) =
     (let isLastExercise = (rest = [])
      in exerciseStep c w ex
         # (if \<not> isLastExercise \<and> restBetweenExercisesSeconds w > 0 then [restStep c w] else [])
         @ exerciseLoop c w rest)"

text \<open>The outer loop \<^verbatim>\<open>for (let rep = 1; rep <= repeats; rep++)\<close>; it returns the steps pushed
  from repetition \<open>rep\<close> on.\<close>

function repeatLoop :: "circuitId \<Rightarrow> workout \<Rightarrow> exerciseSpec list \<Rightarrow> int \<Rightarrow> int \<Rightarrow> step list" where
  "repeatLoop c w exs reps rep =
     (if rep \<le> reps then
        (let isLastRepeat = (rep = reps)
         in exerciseLoop c w exs
            @ (if \<not> isLastRepeat \<and> restBetweenCircuitsSeconds w > 0 then [circuitRestStep c w] else [])
            @ repeatLoop c w exs reps (rep + 1))
      else [])"
  by pat_completeness auto
termination
  by (relation "measure (\<lambda>(c, w, exs, reps, rep). nat (reps + 1 - rep))") auto

declare repeatLoop.simps [simp del]

definition buildStepsForCircuit ::
  "circuitId \<Rightarrow> workout \<Rightarrow> exerciseSpec list \<Rightarrow> int \<Rightarrow> step list" where
  "buildStepsForCircuit c w exs reps = repeatLoop c w exs reps 1"

definition buildSteps :: "workout \<Rightarrow> step list" where
  "buildSteps w =
     buildStepsForCircuit A w (exercises (circuitA w)) (repeats (circuitA w))
     @ (if enabled (circuitB w) then
          (if transitionRestSeconds w > 0 then [transitionRestStep w] else [])
          @ buildStepsForCircuit B w (exercises (circuitB w)) (repeats (circuitB w))
        else [])"

subsection \<open>Build steps, oldest variant\<close>

text \<open>\<^verbatim>\<open>buildStepsForCircuit\<close> and \<^verbatim>\<open>buildSteps\<close> of lines 36 to 115 of \<^verbatim>\<open>src/app.js\<close>. An
  exercise is its name alone there (a line of a text area) and is the label of its step; the
  step type \<^verbatim>\<open>"work"\<close> is \<open>Exercise\<close>; every exercise lasts \<^verbatim>\<open>workSeconds\<close>. The rest
  and circuit rest steps are the objects of the newest variant. Of the workout the functions
  read \<^verbatim>\<open>workSeconds\<close>, the two rests, and the repeats, exercises and \<^verbatim>\<open>enabled\<close> of the
  circuits; given a workout of the data model above they run on the exercises' names.\<close>

definition workStepOld :: "circuitId \<Rightarrow> workout \<Rightarrow> string \<Rightarrow> step" where
  "workStepOld c w ex =
     \<lparr>stepType = Exercise, label = ex, durationSeconds = workSeconds w, circuitId = c\<rparr>"

text \<open>The step that the oldest \<^verbatim>\<open>buildSteps\<close> pushes before circuit B: a circuit rest that
  re-uses \<^verbatim>\<open>restBetweenCircuitsSeconds\<close>.\<close>

definition beforeCircuitBStepOld :: "workout \<Rightarrow> step" where
  "beforeCircuitBStepOld w =
     \<lparr>stepType = CircuitRest, label = ''Rest (before Circuit B)'',
      durationSeconds = restBetweenCircuitsSeconds w, circuitId = B\<rparr>"

fun exerciseLoopOld :: "circuitId \<Rightarrow> workout \<Rightarrow> string list \<Rightarrow> step list" where
  "exerciseLoopOld c w [] = []"
| "exerciseLoopOld c w (ex # rest) =
     (let isLastExercise = (rest = [])
      in workStepOld c w ex
         # (if \<not> isLastExercise \<and> restBetweenExercisesSeconds w > 0 then [restStep c w] else [])
         @ exerciseLoopOld c w rest)"

function repeatLoopOld :: "circuitId \<Rightarrow> workout \<Rightarrow> string list \<Rightarrow> int \<Rightarrow> int \<Rightarrow> step list" where
  "repeatLoopOld c w exs reps rep =
     (if rep \<le> reps then
        (let isLastRepeat = (rep = reps)
         in exerciseLoopOld c w exs
            @ (if \<not> isLastRepeat \<and> restBetweenCircuitsSeconds w > 0 then [circuitRestStep c w] else [])
            @ repeatLoopOld c w exs reps (rep + 1))
      else [])"
  by pat_completeness auto
termination
  by (relation "measure (\<lambda>(c, w, exs, reps, rep). nat (reps + 1 - rep))") auto

declare repeatLoopOld.simps [simp del]

definition buildStepsForCircuitOld ::
  "circuitId \<Rightarrow> workout \<Rightarrow> string list \<Rightarrow> int \<Rightarrow> step list" where
  "buildStepsForCircuitOld c w exs reps = repeatLoopOld c w exs reps 1"

definition buildStepsOld :: "workout \<Rightarrow> step list" where
  "buildStepsOld w =
     buildStepsForCircuitOld A w (map name (exercises (circuitA w))) (repeats (circuitA w))
     @ (if enabled (circuitB w) then
          (if restBetweenCircuitsSeconds w > 0 then [beforeCircuitBStepOld w] else [])
          @ buildStepsForCircuitOld B w (map name (exercises (circuitB w)))
              (repeats (circuitB w))
        else [])"

text \<open>What \<^verbatim>\<open>getWorkoutFromInputs\<close> and the checks of the setup screen's start button
  guarantee of the workout that reaches \<^verbatim>\<open>buildSteps\<close>: the minimum of every \<^verbatim>\<open>clampInt\<close>
  call, the \<^verbatim>\<open>n > 0\<close> test and the skipping of unnamed rows in \<^verbatim>\<open>getExercisesFromList\<close>,
  and the two rejections for an empty exercise list.\<close>

definition validExercise :: "exerciseSpec \<Rightarrow> bool" where
  "validExercise ex =
     (name ex \<noteq> [] \<and> (case secondsOverride ex of None \<Rightarrow> True | Some n \<Rightarrow> n > 0))"

definition validWorkout :: "workout \<Rightarrow> bool" where
  "validWorkout w =
     (workSeconds w \<ge> 1 \<and> restBetweenExercisesSeconds w \<ge> 0
      \<and> restBetweenCircuitsSeconds w \<ge> 0 \<and> transitionRestSeconds w \<ge> 0
      \<and> repeats (circuitA w) \<ge> 1 \<and> repeats (circuitB w) \<ge> 1
      \<and> list_all validExercise (exercises (circuitA w))
      \<and> list_all validExercise (exercises (circuitB w))
      \<and> exercises (circuitA w) \<noteq> []
      \<and> (enabled (circuitB w) \<longrightarrow> exercises (circuitB w) \<noteq> []))"

subsection \<open>Application state\<close>

text \<open>The module-level variables of the script. \<open>intervalId\<close> is \<open>None\<close> for \<^verbatim>\<open>null\<close>.
  Two fields stand for the browser's side of \<^verbatim>\<open>setInterval\<close> and \<^verbatim>\<open>clearInterval\<close>:
  \<open>timers\<close> lists the handles of the intervals that are registered (each of them delivers
  a tick every second), and \<open>timerSeq\<close> is the last handle handed out.\<close>

record runState =
  steps :: "step list"
  workout :: "workout option"
  currentStepIndex :: nat
  secondsRemaining :: int
  intervalId :: "nat option"
  isRunning :: bool
  hasStarted :: bool
  isFinished :: bool
  lastHalfCueStepIndex :: "nat option"
  lastFinalCueKey :: "(nat \<times> int) option"
  lastSpokenRestStepIndex :: "nat option"
  timers :: "nat list"
  timerSeq :: nat

definition initialState :: runState where
  "initialState =
     \<lparr>steps = [], workout = None, currentStepIndex = 0, secondsRemaining = 0,
      intervalId = None, isRunning = False, hasStarted = False, isFinished = False,
      lastHalfCueStepIndex = None, lastFinalCueKey = None, lastSpokenRestStepIndex = None,
      timers = [], timerSeq = 0\<rparr>"

text \<open>The four phases of the run controller, read off the three flags the way
  \<^verbatim>\<open>render\<close> and \<^verbatim>\<open>updateRunControls\<close> read them: \<^verbatim>\<open>isFinished\<close> shows "Done"; the pause
  button shows while \<^verbatim>\<open>isRunning\<close>; the resume button shows when \<^verbatim>\<open>hasStarted\<close> and not
  running; the start button shows before \<^verbatim>\<open>hasStarted\<close>.\<close>

datatype phase = NotStarted | Running | Paused | Finished

definition phase :: "runState \<Rightarrow> phase" where
  "phase s =
     (if isFinished s then Finished
      else if isRunning s then Running
      else if hasStarted s then Paused
      else NotStarted)"

subsection \<open>Progress\<close>

record progress =
  pCircuitId :: circuitId
  round :: int
  exercise :: nat
  exercisesPerRound :: nat
  totalRounds :: int

text \<open>The counting loop \<^verbatim>\<open>for (let i = 0; i <= stepIndex; i++)\<close> of
  \<^verbatim>\<open>getProgressForStep\<close>. It runs after the test \<^verbatim>\<open>!steps[stepIndex]\<close>, so every index it
  reads is below the length of the step list.\<close>

function countLoop :: "step list \<Rightarrow> circuitId \<Rightarrow> nat \<Rightarrow> nat \<Rightarrow> nat \<Rightarrow> nat" where
  "countLoop sts cid stepIndex i exerciseCount =
     (if i \<le> stepIndex then
        countLoop sts cid stepIndex (i + 1)
          (if circuitId (sts ! i) = cid \<and> stepType (sts ! i) = Exercise
           then exerciseCount + 1 else exerciseCount)
      else exerciseCount)"
  by pat_completeness auto
termination
  by (relation "measure (\<lambda>(sts, cid, stepIndex, i, exerciseCount). Suc stepIndex - i)") auto

declare countLoop.simps [simp del]

text \<open>\<open>None\<close> is the \<^verbatim>\<open>null\<close> that the function returns when progress is unavailable.
  \<^verbatim>\<open>steps[stepIndex]\<close> is \<^verbatim>\<open>undefined\<close> exactly for an index outside the list.\<close>

definition getProgressForStep :: "runState \<Rightarrow> int \<Rightarrow> progress option" where
  "getProgressForStep s stepIndex =
     (case workout s of
        None \<Rightarrow> None
      | Some w \<Rightarrow>
          if stepIndex < 0 \<or> stepIndex \<ge> int (length (steps s)) then None
          else
            (let cid = circuitId (steps s ! nat stepIndex);
                 circuit = (if cid = B then circuit.truncate (circuitB w) else circuitA w);
                 exercisesPerRound = length (exercises circuit);
                 totalRounds = repeats circuit
             in if exercisesPerRound \<le> 0 then None
                else
                  (let exerciseCount = countLoop (steps s) cid (nat stepIndex) 0 0
                   in if exerciseCount = 0 then
                        Some \<lparr>pCircuitId = cid, round = 1, exercise = 1,
                              exercisesPerRound = exercisesPerRound, totalRounds = totalRounds\<rparr>
                      else
                        Some \<lparr>pCircuitId = cid,
                              round = \<lceil>real exerciseCount / real exercisesPerRound\<rceil>,
                              exercise = ((exerciseCount - 1) mod exercisesPerRound) + 1,
                              exercisesPerRound = exercisesPerRound,
                              totalRounds = totalRounds\<rparr>)))"

subsection \<open>Timer engine\<close>

text \<open>\<^verbatim>\<open>render\<close> only reads the state and writes the page, so it returns the state as it
  is. What matters of it here is where it can fail: past the tests for an empty step list and
  for \<^verbatim>\<open>isFinished\<close> it reads \<^verbatim>\<open>step.type\<close> of \<^verbatim>\<open>steps[currentStepIndex]\<close>, a TypeError
  when that is \<^verbatim>\<open>undefined\<close>. An uncaught TypeError is the result \<open>None\<close> throughout.\<close>

definition render :: "runState \<Rightarrow> runState option" where
  "render s =
     (if steps s = [] then Some s
      else if isFinished s then Some s
      else if currentStepIndex s < length (steps s) then Some s
      else None)"

definition clearInterval :: "nat \<Rightarrow> runState \<Rightarrow> runState" where
  "clearInterval h s = s\<lparr>timers := removeAll h (timers s)\<rparr>"

definition stopTimer :: "runState \<Rightarrow> runState" where
  "stopTimer s =
     (let s1 = (case intervalId s of
                  Some h \<Rightarrow> (clearInterval h s)\<lparr>intervalId := None\<rparr>
                | None \<Rightarrow> s)
      in s1\<lparr>isRunning := False\<rparr>)"

text \<open>\<^verbatim>\<open>startTimer\<close> up to the registration of the interval; the callback it registers is
  \<open>tick\<close> below. \<^verbatim>\<open>setInterval\<close> hands out a fresh handle.\<close>

definition startTimer :: "runState \<Rightarrow> runState" where
  "startTimer s =
     (if isRunning s \<or> steps s = [] \<or> isFinished s then s
      else
        (let h = Suc (timerSeq s)
         in s\<lparr>isRunning := True, hasStarted := True,
               intervalId := Some h, timers := timers s @ [h], timerSeq := h\<rparr>))"

definition setStep :: "nat \<Rightarrow> step option \<Rightarrow> runState \<Rightarrow> runState option" where
  "setStep index previousStep s =
     (if index < length (steps s) then
        (let step = steps s ! index;
             s1 = s\<lparr>currentStepIndex := index, secondsRemaining := durationSeconds step\<rparr>;
             isNowRest = (stepType step = Rest \<or> stepType step = CircuitRest
                          \<or> stepType step = TransitionRest);
             wasExercise = (case previousStep of
                              Some p \<Rightarrow> stepType p = Exercise
                            | None \<Rightarrow> False);
             s2 = (if isNowRest \<and> wasExercise \<and> lastSpokenRestStepIndex s1 \<noteq> Some index
                   then s1\<lparr>lastSpokenRestStepIndex := Some index\<rparr>
                   else s1)
         in render s2)
      else None)"

definition goToNextStep :: "bool \<Rightarrow> runState \<Rightarrow> runState option" where
  "goToNextStep autoContinue s =
     (let prev = (if currentStepIndex s < length (steps s)
                  then Some (steps s ! currentStepIndex s) else None);
          s1 = stopTimer s;
          nextIndex = currentStepIndex s1 + 1
      in if nextIndex \<ge> length (steps s1) then
           render (s1\<lparr>isFinished := True, secondsRemaining := 0\<rparr>)
         else
           (case setStep nextIndex prev (s1\<lparr>isFinished := False\<rparr>) of
              None \<Rightarrow> None
            | Some s2 \<Rightarrow> Some (if autoContinue then startTimer s2 else s2)))"

text \<open>The bookkeeping of the two cues in the interval callback: the halfway cue of an
  exercise step and the final countdown of any step.\<close>

definition cues :: "runState \<Rightarrow> runState" where
  "cues s =
     (if currentStepIndex s < length (steps s) then
        (let step = steps s ! currentStepIndex s;
             s1 = (if stepType step = Exercise then
                     (let halfPoint = durationSeconds step div 2
                      in if secondsRemaining s = halfPoint
                            \<and> lastHalfCueStepIndex s \<noteq> Some (currentStepIndex s)
                         then s\<lparr>lastHalfCueStepIndex := Some (currentStepIndex s)\<rparr>
                         else s)
                   else s)
         in if secondsRemaining s1 \<le> 3 \<and> secondsRemaining s1 \<ge> 1 then
              (let key = (currentStepIndex s1, secondsRemaining s1)
               in if lastFinalCueKey s1 \<noteq> Some key
                  then s1\<lparr>lastFinalCueKey := Some key\<rparr>
                  else s1)
            else s1)
      else s)"

text \<open>The arithmetic of \<^verbatim>\<open>secondsRemaining -= 1\<close>. A JavaScript number is an IEEE double: an
  integer of at most 53 bits is held exactly, a longer one is held as the nearest multiple of
  \<open>2 ^ (bits - 53)\<close>, a tie going to the even multiple. \<open>roundToDouble n\<close> is the double
  that the exact result \<open>n\<close> of an operation is rounded to (the overflow to \<^verbatim>\<open>Infinity\<close> near
  \<open>2 ^ 1024\<close> is left out).\<close>

fun bitLength :: "nat \<Rightarrow> nat" where
  "bitLength n = (if n = 0 then 0 else Suc (bitLength (n div 2)))"

declare bitLength.simps [simp del]

definition roundToDouble :: "int \<Rightarrow> int" where
  "roundToDouble n =
     (let m = nat \<bar>n\<bar>; b = bitLength m
      in if b \<le> 53 then n
         else
           (let u = 2 ^ (b - 53); q = m div u; r = m mod u;
                q' = (if 2 * r < u \<or> (2 * r = u \<and> even q) then q else q + 1)
            in sgn n * int (q' * u)))"

text \<open>The callback of the interval: one elapsed second.\<close>

definition tick :: "runState \<Rightarrow> runState option" where
  "tick s =
     (let s1 = s\<lparr>secondsRemaining := roundToDouble (secondsRemaining s - 1)\<rparr>;
          s2 = cues s1
      in if secondsRemaining s2 \<le> 0 then goToNextStep True s2 else render s2)"

definition skipStep :: "runState \<Rightarrow> runState option" where
  "skipStep s = (if steps s = [] then Some s else goToNextStep (isRunning s) s)"

definition resetWorkout :: "runState \<Rightarrow> runState option" where
  "resetWorkout s =
     (let s1 = stopTimer s
      in case (if length (steps s1) > 0 then
                 setStep 0 None
                   (s1\<lparr>lastHalfCueStepIndex := None, lastFinalCueKey := None,
                        lastSpokenRestStepIndex := None\<rparr>)
               else Some s1) of
           None \<Rightarrow> None
         | Some s2 \<Rightarrow> Some (s2\<lparr>hasStarted := False, isFinished := False\<rparr>))"

text \<open>The click handler of the setup screen's start button, for the workout read from
  the inputs.\<close>

definition startWorkout :: "workout \<Rightarrow> runState \<Rightarrow> runState option" where
  "startWorkout nextWorkout s =
     (if exercises (circuitA nextWorkout) = [] then Some s
      else if enabled (circuitB nextWorkout) \<and> exercises (circuitB nextWorkout) = [] then Some s
      else
        (let s1 = s\<lparr>workout := Some nextWorkout, steps := buildSteps nextWorkout,
                     hasStarted := False, isFinished := False,
                     lastHalfCueStepIndex := None, lastFinalCueKey := None,
                     lastSpokenRestStepIndex := None\<rparr>
         in case setStep 0 None s1 of
              None \<Rightarrow> None
            | Some s2 \<Rightarrow> render (stopTimer s2)))"

text \<open>The operations of the run screen, as its buttons and the interval invoke them:
  start and resume call \<^verbatim>\<open>startTimer\<close>, pause calls \<^verbatim>\<open>stopTimer\<close>, skip calls \<^verbatim>\<open>skipStep\<close>,
  reset calls \<^verbatim>\<open>resetWorkout\<close>, and a tick is one run of the interval's callback.\<close>

datatype operation = Start | Tick | Pause | Resume | Skip | Reset

fun runOp :: "operation \<Rightarrow> runState \<Rightarrow> runState option" where
  "runOp Start s = Some (startTimer s)"
| "runOp Tick s = tick s"
| "runOp Pause s = Some (stopTimer s)"
| "runOp Resume s = Some (startTimer s)"
| "runOp Skip s = skipStep s"
| "runOp Reset s = resetWorkout s"

text \<open>The states the application can be in: the state after loading the page, and every
  state that follows from one of them by starting a workout that \<^verbatim>\<open>getWorkoutFromInputs\<close>
  can produce, by a button of the run screen, or by a tick, which is delivered only while
  an interval is registered.\<close>

inductive reachable :: "runState \<Rightarrow> bool" where
  reach_init: "reachable initialState"
| reach_workout:
    "reachable s \<Longrightarrow> validWorkout w \<Longrightarrow> startWorkout w s = Some s' \<Longrightarrow> reachable s'"
| reach_op:
    "reachable s \<Longrightarrow> op = Tick \<longrightarrow> timers s \<noteq> [] \<Longrightarrow> runOp op s = Some s' \<Longrightarrow> reachable s'"

text \<open>The invariant of the reachable states: the current index is inside the step list,
  the stored handle is the one registered interval exactly while running, and a finished
  run is stopped on the last step with no time left.\<close>

definition wellFormed :: "runState \<Rightarrow> bool" where
  "wellFormed s =
     ((steps s = [] \<or> currentStepIndex s < length (steps s))
      \<and> (isRunning s \<longleftrightarrow> intervalId s \<noteq> None)
      \<and> timers s = (case intervalId s of None \<Rightarrow> [] | Some h \<Rightarrow> [h])
      \<and> (isRunning s \<longrightarrow> hasStarted s \<and> \<not> isFinished s \<and> steps s \<noteq> [])
      \<and> (isFinished s \<longrightarrow>
            secondsRemaining s = 0 \<and> Suc (currentStepIndex s) = length (steps s)))"

subsection \<open>Helpers\<close>

text \<open>A JavaScript string is a sequence of UTF-16 code units; \<open>codeUnits\<close> gives the code
  units of an ASCII literal.\<close>

type_synonym jsString = "nat list"

definition codeUnits :: "string \<Rightarrow> jsString" where
  "codeUnits cs = map of_char cs"

text \<open>\<^verbatim>\<open>Number.parseInt(value, 10)\<close> of the language standard, for a string: leading white
  space and line terminators are skipped, one sign is read, and the longest run of decimal
  digits that follows is the number; what comes after the digits is ignored. With no digit
  there the result is \<^verbatim>\<open>NaN\<close>, which is \<open>None\<close> here.\<close>

definition isStrWhiteSpaceChar :: "nat \<Rightarrow> bool" where
  "isStrWhiteSpaceChar u =
     (u = 9 \<or> u = 10 \<or> u = 11 \<or> u = 12 \<or> u = 13 \<or> u = 32 \<or> u = 160 \<or> u = 5760
      \<or> (8192 \<le> u \<and> u \<le> 8202) \<or> u = 8232 \<or> u = 8233 \<or> u = 8239 \<or> u = 8287
      \<or> u = 12288 \<or> u = 65279)"

definition isDecimalDigit :: "nat \<Rightarrow> bool" where
  "isDecimalDigit u = (48 \<le> u \<and> u \<le> 57)"

definition digitsValue :: "nat list \<Rightarrow> int" where
  "digitsValue ds = foldl (\<lambda>acc d. 10 * acc + (int d - 48)) 0 ds"

definition parseInt :: "jsString \<Rightarrow> int option" where
  "parseInt inputString =
     (let S = dropWhile isStrWhiteSpaceChar inputString;
          sign = (if S \<noteq> [] \<and> hd S = 45 then - 1 else (1::int));
          S' = (if S \<noteq> [] \<and> (hd S = 43 \<or> hd S = 45) then tl S else S);
          Z = takeWhile isDecimalDigit S'
      in if Z = [] then None else Some (sign * digitsValue Z))"

definition clampInt :: "jsString \<Rightarrow> int \<Rightarrow> int \<Rightarrow> int" where
  "clampInt v minv fallback =
     (case parseInt v of
        None \<Rightarrow> fallback
      | Some n \<Rightarrow> max minv n)"

subsection \<open>Example workouts\<close>

text \<open>Two circuits, the second exercise of circuit A with a 60 second override and a
  transition rest of 30 seconds.\<close>

definition exampleTwoCircuits :: workout where
  "exampleTwoCircuits =
     \<lparr>workSeconds = 45, restBetweenExercisesSeconds = 15, restBetweenCircuitsSeconds = 60,
      transitionRestSeconds = 30,
      circuitA = \<lparr>repeats = 2,
                  exercises = [\<lparr>name = ''Squats'', secondsOverride = None\<rparr>,
                               \<lparr>name = ''Plank'', secondsOverride = Some 60\<rparr>]\<rparr>,
      circuitB = \<lparr>repeats = 1,
                  exercises = [\<lparr>name = ''Push-ups'', secondsOverride = None\<rparr>],
                  enabled = True\<rparr>\<rparr>"

text \<open>Circuit A alone: two exercises, two repetitions.\<close>

definition exampleOneCircuit :: workout where
  "exampleOneCircuit =
     \<lparr>workSeconds = 45, restBetweenExercisesSeconds = 15, restBetweenCircuitsSeconds = 60,
      transitionRestSeconds = 30,
      circuitA = \<lparr>repeats = 2,
                  exercises = [\<lparr>name = ''Squats'', secondsOverride = None\<rparr>,
                               \<lparr>name = ''Plank'', secondsOverride = None\<rparr>]\<rparr>,
      circuitB = \<lparr>repeats = 1, exercises = [], enabled = False\<rparr>\<rparr>"

subsection \<open>Example states\<close>

text \<open>The one-circuit example while it runs, on step \<open>i\<close> with \<open>n\<close> seconds left.\<close>

definition exampleRunning :: "nat \<Rightarrow> int \<Rightarrow> runState" where
  "exampleRunning i n =
     \<lparr>steps = buildSteps exampleOneCircuit, workout = Some exampleOneCircuit,
      currentStepIndex = i, secondsRemaining = n,
      intervalId = Some 1, isRunning = True, hasStarted = True, isFinished = False,
      lastHalfCueStepIndex = None, lastFinalCueKey = None, lastSpokenRestStepIndex = None,
      timers = [1], timerSeq = 1\<rparr>"

text \<open>A short workout and the states of one run of it: ready after the setup screen's start
  button, running on the first step, running on the rest after one tick, running on the last
  step after a skip, and finished after one more tick.\<close>

definition exampleShort :: workout where
  "exampleShort =
     \<lparr>workSeconds = 1, restBetweenExercisesSeconds = 15, restBetweenCircuitsSeconds = 0,
      transitionRestSeconds = 0,
      circuitA = \<lparr>repeats = 1,
                  exercises = [\<lparr>name = ''Squats'', secondsOverride = None\<rparr>,
                               \<lparr>name = ''Plank'', secondsOverride = None\<rparr>]\<rparr>,
      circuitB = \<lparr>repeats = 1, exercises = [], enabled = False\<rparr>\<rparr>"

definition shortSteps :: "step list" where
  "shortSteps =
     [\<lparr>stepType = Exercise, label = ''Squats'', durationSeconds = 1, circuitId = A\<rparr>,
      \<lparr>stepType = Rest, label = ''Rest'', durationSeconds = 15, circuitId = A\<rparr>,
      \<lparr>stepType = Exercise, label = ''Plank'', durationSeconds = 1, circuitId = A\<rparr>]"

definition shortReady :: runState where
  "shortReady =
     \<lparr>steps = shortSteps, workout = Some exampleShort,
      currentStepIndex = 0, secondsRemaining = 1,
      intervalId = None, isRunning = False, hasStarted = False, isFinished = False,
      lastHalfCueStepIndex = None, lastFinalCueKey = None, lastSpokenRestStepIndex = None,
      timers = [], timerSeq = 0\<rparr>"

definition shortRunning0 :: runState where
  "shortRunning0 =
     shortReady\<lparr>intervalId := Some 1, isRunning := True, hasStarted := True,
                timers := [1], timerSeq := 1\<rparr>"

definition shortRunning1 :: runState where
  "shortRunning1 =
     shortRunning0\<lparr>currentStepIndex := 1, secondsRemaining := 15, intervalId := Some 2,
                   lastHalfCueStepIndex := Some 0, lastSpokenRestStepIndex := Some 1,
                   timers := [2], timerSeq := 2\<rparr>"

definition shortRunning2 :: runState where
  "shortRunning2 =
     shortRunning1\<lparr>currentStepIndex := 2, secondsRemaining := 1, intervalId := Some 3,
                   timers := [3], timerSeq := 3\<rparr>"

definition shortFinished :: runState where
  "shortFinished =
     shortRunning2\<lparr>secondsRemaining := 0, intervalId := None, isRunning := False,
                   isFinished := True, lastHalfCueStepIndex := Some 2, timers := []\<rparr>"

text \<open>A workout whose exercise lasts \<open>10^17\<close> seconds, ready and running.\<close>

definition exampleLong :: workout where
  "exampleLong =
     \<lparr>workSeconds = 100000000000000000, restBetweenExercisesSeconds = 15,
      restBetweenCircuitsSeconds = 60, transitionRestSeconds = 60,
      circuitA = \<lparr>repeats = 1, exercises = [\<lparr>name = ''Plank'', secondsOverride = None\<rparr>]\<rparr>,
      circuitB = \<lparr>repeats = 1, exercises = [], enabled = False\<rparr>\<rparr>"

definition longReady :: runState where
  "longReady =
     \<lparr>steps = [\<lparr>stepType = Exercise, label = ''Plank'',
                durationSeconds = 100000000000000000, circuitId = A\<rparr>],
      workout = Some exampleLong,
      currentStepIndex = 0, secondsRemaining = 100000000000000000,
      intervalId = None, isRunning = False, hasStarted = False, isFinished = False,
      lastHalfCueStepIndex = None, lastFinalCueKey = None, lastSpokenRestStepIndex = None,
      timers = [], timerSeq = 0\<rparr>"

definition longRunning :: runState where
  "longRunning =
     longReady\<lparr>intervalId := Some 1, isRunning := True, hasStarted := True,
               timers := [1], timerSeq := 1\<rparr>"

section \<open>Properties of the step builder\<close>

subsection \<open>The steps of one circuit\<close>

lemma stepType_simps [simp]:
  "stepType (exerciseStep c w ex) = Exercise"
  "stepType (restStep c w) = Rest"
  "stepType (circuitRestStep c w) = CircuitRest"
  "stepType (transitionRestStep w) = TransitionRest"
  by (simp_all add: exerciseStep_def restStep_def circuitRestStep_def transitionRestStep_def Let_def)

lemma circuitId_simps [simp]:
  "circuitId (exerciseStep c w ex) = c"
  "circuitId (restStep c w) = c"
  "circuitId (circuitRestStep c w) = c"
  "circuitId (transitionRestStep w) = B"
  by (simp_all add: exerciseStep_def restStep_def circuitRestStep_def transitionRestStep_def Let_def)

lemma exerciseLoop_exercises:
  "filter (\<lambda>s. stepType s = Exercise) (exerciseLoop c w exs) = map (exerciseStep c w) exs"
  by (induction exs) (simp_all add: Let_def)

lemma exerciseLoop_rests:
  "length (filter (\<lambda>s. stepType s = Rest) (exerciseLoop c w exs)) =
     (if restBetweenExercisesSeconds w > 0 then length exs - 1 else 0)"
  by (induction exs) (auto simp add: Let_def)

lemma exerciseLoop_stepType:
  "s \<in> set (exerciseLoop c w exs) \<Longrightarrow> stepType s = Exercise \<or> stepType s = Rest"
  by (induction exs) (auto simp add: Let_def split: if_splits)

lemma exerciseLoop_circuitId:
  "s \<in> set (exerciseLoop c w exs) \<Longrightarrow> circuitId s = c"
  by (induction exs) (auto simp add: Let_def split: if_splits)

lemma exerciseLoop_length:
  "length (exerciseLoop c w exs) =
     length exs + (if restBetweenExercisesSeconds w > 0 then length exs - 1 else 0)"
  by (induction exs) (auto simp add: Let_def)

lemma repeatLoop_exercises:
  "filter (\<lambda>s. stepType s = Exercise) (repeatLoop c w exs reps rep) =
     concat (replicate (nat (reps + 1 - rep)) (map (exerciseStep c w) exs))"
proof (induction c w exs reps rep rule: repeatLoop.induct)
  case (1 c w exs reps rep)
  show ?case
  proof (cases "rep \<le> reps")
    case True
    then have n: "nat (reps + 1 - rep) = Suc (nat (reps + 1 - (rep + 1)))" by simp
    show ?thesis
      using True 1 by (subst repeatLoop.simps, subst n) (simp add: Let_def exerciseLoop_exercises)
  next
    case False
    then show ?thesis by (subst repeatLoop.simps) simp
  qed
qed

lemma exerciseLoop_no_circuitRest:
  "filter (\<lambda>s. stepType s = CircuitRest) (exerciseLoop c w exs) = []"
  by (auto simp add: filter_empty_conv dest: exerciseLoop_stepType)

lemma repeatLoop_rests:
  "length (filter (\<lambda>s. stepType s = Rest) (repeatLoop c w exs reps rep)) =
     nat (reps + 1 - rep) * (if restBetweenExercisesSeconds w > 0 then length exs - 1 else 0)"
proof (induction c w exs reps rep rule: repeatLoop.induct)
  case (1 c w exs reps rep)
  show ?case
  proof (cases "rep \<le> reps")
    case True
    then have n: "nat (reps + 1 - rep) = Suc (nat (reps + 1 - (rep + 1)))" by simp
    show ?thesis
      using True 1 by (subst repeatLoop.simps, subst n) (simp add: Let_def exerciseLoop_rests)
  next
    case False
    then show ?thesis by (subst repeatLoop.simps) simp
  qed
qed

lemma repeatLoop_circuitRests:
  "length (filter (\<lambda>s. stepType s = CircuitRest) (repeatLoop c w exs reps rep)) =
     (if restBetweenCircuitsSeconds w > 0 then nat (reps - rep) else 0)"
proof (induction c w exs reps rep rule: repeatLoop.induct)
  case (1 c w exs reps rep)
  show ?case
  proof (cases "rep \<le> reps")
    case True
    show ?thesis
      using True 1
      by (subst repeatLoop.simps) (auto simp add: Let_def exerciseLoop_no_circuitRest)
  next
    case False
    then show ?thesis by (subst repeatLoop.simps) simp
  qed
qed

lemma repeatLoop_member:
  "s \<in> set (repeatLoop c w exs reps rep) \<Longrightarrow> stepType s \<noteq> TransitionRest \<and> circuitId s = c"
proof (induction c w exs reps rep rule: repeatLoop.induct)
  case (1 c w exs reps rep)
  show ?case
  proof (cases "rep \<le> reps")
    case True
    from "1.prems" have
      "s \<in> set (exerciseLoop c w exs) \<or> s = circuitRestStep c w
       \<or> s \<in> set (repeatLoop c w exs reps (rep + 1))"
      using True by (subst (asm) repeatLoop.simps) (auto simp add: Let_def split: if_splits)
    then show ?thesis
      using "1.IH" True
      by (auto dest: exerciseLoop_stepType exerciseLoop_circuitId)
  next
    case False
    with "1.prems" show ?thesis by (subst (asm) repeatLoop.simps) simp
  qed
qed

lemma repeatLoop_length:
  "length (repeatLoop c w exs reps rep) =
     nat (reps + 1 - rep) * length (exerciseLoop c w exs)
     + (if restBetweenCircuitsSeconds w > 0 then nat (reps - rep) else 0)"
proof (induction c w exs reps rep rule: repeatLoop.induct)
  case (1 c w exs reps rep)
  show ?case
  proof (cases "rep \<le> reps")
    case True
    then have n: "nat (reps + 1 - rep) = Suc (nat (reps + 1 - (rep + 1)))" by simp
    show ?thesis
      using True 1 by (subst repeatLoop.simps, subst n) (auto simp add: Let_def)
  next
    case False
    then show ?thesis by (subst repeatLoop.simps) simp
  qed
qed

lemma buildStepsForCircuit_member:
  "s \<in> set (buildStepsForCircuit c w exs reps) \<Longrightarrow> stepType s \<noteq> TransitionRest \<and> circuitId s = c"
  unfolding buildStepsForCircuit_def by (rule repeatLoop_member)

lemma buildStepsForCircuit_no_transition:
  "filter (\<lambda>s. stepType s = TransitionRest) (buildStepsForCircuit c w exs reps) = []"
  by (auto simp add: filter_empty_conv dest: buildStepsForCircuit_member)

lemma buildStepsForCircuit_other_circuit:
  "c' \<noteq> c \<Longrightarrow> filter (\<lambda>s. P s \<and> circuitId s = c') (buildStepsForCircuit c w exs reps) = []"
  by (auto simp add: filter_empty_conv dest: buildStepsForCircuit_member)

lemma buildStepsForCircuit_this_circuit:
  "filter (\<lambda>s. P s \<and> circuitId s = c) (buildStepsForCircuit c w exs reps)
     = filter P (buildStepsForCircuit c w exs reps)"
  by (rule filter_cong) (auto dest: buildStepsForCircuit_member)

lemma buildStepsForCircuit_exercises:
  "filter (\<lambda>s. stepType s = Exercise) (buildStepsForCircuit c w exs reps) =
     concat (replicate (nat reps) (map (exerciseStep c w) exs))"
  unfolding buildStepsForCircuit_def by (simp add: repeatLoop_exercises)



lemma buildSteps_circuit_exercise_steps:
  "filter (\<lambda>s. stepType s = Exercise \<and> circuitId s = A) (buildSteps w) =
     concat (replicate (nat (repeats (circuitA w)))
       (map (exerciseStep A w) (exercises (circuitA w))))"
  "filter (\<lambda>s. stepType s = Exercise \<and> circuitId s = B) (buildSteps w) =
     (if enabled (circuitB w) then
        concat (replicate (nat (repeats (circuitB w)))
          (map (exerciseStep B w) (exercises (circuitB w))))
      else [])"
proof -
  have a: "filter (\<lambda>s. stepType s = Exercise \<and> circuitId s = A)
             (buildStepsForCircuit A w exs reps)
           = concat (replicate (nat reps) (map (exerciseStep A w) exs))" for exs reps
    by (simp only: buildStepsForCircuit_this_circuit buildStepsForCircuit_exercises)
  have b: "filter (\<lambda>s. stepType s = Exercise \<and> circuitId s = B)
             (buildStepsForCircuit B w exs reps)
           = concat (replicate (nat reps) (map (exerciseStep B w) exs))" for exs reps
    by (simp only: buildStepsForCircuit_this_circuit buildStepsForCircuit_exercises)
  have ab: "filter (\<lambda>s. stepType s = Exercise \<and> circuitId s = B)
             (buildStepsForCircuit A w exs reps) = []" for exs reps
    by (rule buildStepsForCircuit_other_circuit) simp
  have ba: "filter (\<lambda>s. stepType s = Exercise \<and> circuitId s = A)
             (buildStepsForCircuit B w exs reps) = []" for exs reps
    by (rule buildStepsForCircuit_other_circuit) simp
  show "filter (\<lambda>s. stepType s = Exercise \<and> circuitId s = A) (buildSteps w) =
     concat (replicate (nat (repeats (circuitA w)))
       (map (exerciseStep A w) (exercises (circuitA w))))"
    by (simp add: buildSteps_def a ba)
  show "filter (\<lambda>s. stepType s = Exercise \<and> circuitId s = B) (buildSteps w) =
     (if enabled (circuitB w) then
        concat (replicate (nat (repeats (circuitB w)))
          (map (exerciseStep B w) (exercises (circuitB w))))
      else [])"
    by (simp add: buildSteps_def b ab)
qed

lemma buildSteps_circuit_exercise_count:
  "length (filter (\<lambda>st. circuitId st = A \<and> stepType st = Exercise) (buildSteps w))
     = nat (repeats (circuitA w)) * length (exercises (circuitA w))"
  "length (filter (\<lambda>st. circuitId st = B \<and> stepType st = Exercise) (buildSteps w))
     = (if enabled (circuitB w)
        then nat (repeats (circuitB w)) * length (exercises (circuitB w)) else 0)"
proof -
  have sw: "(\<lambda>st. circuitId st = c \<and> stepType st = Exercise)
            = (\<lambda>st. stepType st = Exercise \<and> circuitId st = c)" for c
    by auto
  show "length (filter (\<lambda>st. circuitId st = A \<and> stepType st = Exercise) (buildSteps w))
     = nat (repeats (circuitA w)) * length (exercises (circuitA w))"
    by (simp add: sw buildSteps_circuit_exercise_steps length_concat sum_list_replicate)
  show "length (filter (\<lambda>st. circuitId st = B \<and> stepType st = Exercise) (buildSteps w))
     = (if enabled (circuitB w)
        then nat (repeats (circuitB w)) * length (exercises (circuitB w)) else 0)"
    by (simp add: sw buildSteps_circuit_exercise_steps length_concat sum_list_replicate)
qed

lemma buildSteps_circuitB_enabled:
  assumes "st \<in> set (buildSteps w)" and "circuitId st = B"
  shows "enabled (circuitB w)"
proof (rule ccontr)
  assume "\<not> enabled (circuitB w)"
  with assms(1) have "st \<in> set (buildStepsForCircuit A w (exercises (circuitA w)) (repeats (circuitA w)))"
    by (simp add: buildSteps_def)
  from buildStepsForCircuit_member [OF this] assms(2) show False by simp
qed

lemma buildStepsForCircuit_first:
  assumes "exs \<noteq> []" and "1 \<le> reps"
  shows "buildStepsForCircuit c w exs reps \<noteq> []"
    and "buildStepsForCircuit c w exs reps ! 0 = exerciseStep c w (hd exs)"
proof -
  from assms(1) obtain ex rest where e: "exs = ex # rest"
    by (cases exs) auto
  from assms(2) have "repeatLoop c w exs reps 1 =
      exerciseLoop c w exs
      @ (if 1 \<noteq> reps \<and> restBetweenCircuitsSeconds w > 0 then [circuitRestStep c w] else [])
      @ repeatLoop c w exs reps 2"
    by (subst repeatLoop.simps) (simp add: Let_def)
  then have "\<exists>tl. buildStepsForCircuit c w exs reps = exerciseStep c w ex # tl"
    by (simp add: buildStepsForCircuit_def e Let_def)
  then show "buildStepsForCircuit c w exs reps \<noteq> []"
    and "buildStepsForCircuit c w exs reps ! 0 = exerciseStep c w (hd exs)"
    by (auto simp add: e)
qed

subsection \<open>The steps of one circuit, oldest variant\<close>

lemma exerciseLoopOld_stepType:
  "s \<in> set (exerciseLoopOld c w exs) \<Longrightarrow> stepType s = Exercise \<or> stepType s = Rest"
  by (induction exs) (auto simp add: Let_def workStepOld_def split: if_splits)

lemma repeatLoopOld_member:
  "s \<in> set (repeatLoopOld c w exs reps rep) \<Longrightarrow> stepType s \<noteq> TransitionRest"
proof (induction c w exs reps rep rule: repeatLoopOld.induct)
  case (1 c w exs reps rep)
  show ?case
  proof (cases "rep \<le> reps")
    case True
    from "1.prems" have
      "s \<in> set (exerciseLoopOld c w exs) \<or> s = circuitRestStep c w
       \<or> s \<in> set (repeatLoopOld c w exs reps (rep + 1))"
      using True by (subst (asm) repeatLoopOld.simps) (auto simp add: Let_def split: if_splits)
    then show ?thesis
      using "1.IH" True
      by (auto dest: exerciseLoopOld_stepType)
  next
    case False
    with "1.prems" show ?thesis by (subst (asm) repeatLoopOld.simps) simp
  qed
qed

lemma buildStepsOld_no_transition:
  "filter (\<lambda>s. stepType s = TransitionRest) (buildStepsOld w) = []"
  by (auto simp add: filter_empty_conv buildStepsOld_def buildStepsForCircuitOld_def
        beforeCircuitBStepOld_def dest: repeatLoopOld_member)

lemmas buildStepsOld_eval =
  buildStepsOld_def buildStepsForCircuitOld_def repeatLoopOld.simps workStepOld_def
  restStep_def circuitRestStep_def beforeCircuitBStepOld_def

subsection \<open>The whole workout\<close>

text \<open>Claim C1. In the newest variant, when circuit B is enabled and
  \<^verbatim>\<open>transitionRestSeconds\<close> is positive, the built sequence is circuit A's steps, then one
  transition rest step whose duration is \<^verbatim>\<open>transitionRestSeconds\<close>, then circuit B's steps, and
  that step is the only one of type transition rest. When circuit B has an exercise and a
  repetition, the step right after the transition rest exists and is the exercise step of
  circuit B's first exercise; every step before the transition rest belongs to circuit A and
  every step after it to circuit B. Changing \<^verbatim>\<open>restBetweenCircuitsSeconds\<close> changes nothing about
  the transition rest steps of the sequence. When circuit B is disabled or
  \<^verbatim>\<open>transitionRestSeconds\<close> is not positive, the sequence has no transition rest step.
  The oldest variant never emits a transition rest step: with circuit B enabled and
  \<^verbatim>\<open>restBetweenCircuitsSeconds\<close> positive it puts one circuit rest step of
  \<^verbatim>\<open>restBetweenCircuitsSeconds\<close> between the steps of the two circuits, and with
  \<^verbatim>\<open>restBetweenCircuitsSeconds\<close> not positive it puts nothing there.\<close>

theorem buildSteps_transition_rest:
  "(enabled (circuitB w) \<and> transitionRestSeconds w > 0 \<longrightarrow>
      buildSteps w =
        buildStepsForCircuit A w (exercises (circuitA w)) (repeats (circuitA w))
        @ [\<lparr>stepType = TransitionRest, label = ''Transition rest'',
             durationSeconds = transitionRestSeconds w, circuitId = B\<rparr>]
        @ buildStepsForCircuit B w (exercises (circuitB w)) (repeats (circuitB w))
      \<and> filter (\<lambda>s. stepType s = TransitionRest) (buildSteps w) =
          [\<lparr>stepType = TransitionRest, label = ''Transition rest'',
            durationSeconds = transitionRestSeconds w, circuitId = B\<rparr>])
   \<and> (enabled (circuitB w) \<and> transitionRestSeconds w > 0
        \<and> exercises (circuitB w) \<noteq> [] \<and> 1 \<le> repeats (circuitB w) \<longrightarrow>
        (let n = length (buildStepsForCircuit A w (exercises (circuitA w))
                          (repeats (circuitA w)))
         in buildSteps w ! n =
              \<lparr>stepType = TransitionRest, label = ''Transition rest'',
               durationSeconds = transitionRestSeconds w, circuitId = B\<rparr>
            \<and> Suc n < length (buildSteps w)
            \<and> buildSteps w ! Suc n =
              \<lparr>stepType = Exercise, label = name (hd (exercises (circuitB w))),
               durationSeconds =
                 (case secondsOverride (hd (exercises (circuitB w))) of
                    Some d \<Rightarrow> d | None \<Rightarrow> workSeconds w),
               circuitId = B\<rparr>
            \<and> (\<forall>i. i < n \<longrightarrow> circuitId (buildSteps w ! i) = A)
            \<and> (\<forall>i. n < i \<and> i < length (buildSteps w) \<longrightarrow>
                   circuitId (buildSteps w ! i) = B
                   \<and> stepType (buildSteps w ! i) \<noteq> TransitionRest)))
   \<and> (\<forall>r. filter (\<lambda>s. stepType s = TransitionRest)
              (buildSteps (w\<lparr>restBetweenCircuitsSeconds := r\<rparr>))
           = filter (\<lambda>s. stepType s = TransitionRest) (buildSteps w))
   \<and> (\<not> enabled (circuitB w) \<or> transitionRestSeconds w \<le> 0 \<longrightarrow>
        filter (\<lambda>s. stepType s = TransitionRest) (buildSteps w) = [])
   \<and> filter (\<lambda>s. stepType s = TransitionRest) (buildStepsOld w) = []
   \<and> (enabled (circuitB w) \<and> restBetweenCircuitsSeconds w > 0 \<longrightarrow>
        buildStepsOld w =
          buildStepsForCircuitOld A w (map name (exercises (circuitA w))) (repeats (circuitA w))
          @ [\<lparr>stepType = CircuitRest, label = ''Rest (before Circuit B)'',
               durationSeconds = restBetweenCircuitsSeconds w, circuitId = B\<rparr>]
          @ buildStepsForCircuitOld B w (map name (exercises (circuitB w)))
              (repeats (circuitB w)))
   \<and> (enabled (circuitB w) \<and> restBetweenCircuitsSeconds w \<le> 0 \<longrightarrow>
        buildStepsOld w =
          buildStepsForCircuitOld A w (map name (exercises (circuitA w))) (repeats (circuitA w))
          @ buildStepsForCircuitOld B w (map name (exercises (circuitB w)))
              (repeats (circuitB w)))"
proof -
  let ?as = "buildStepsForCircuit A w (exercises (circuitA w)) (repeats (circuitA w))"
  let ?bs = "buildStepsForCircuit B w (exercises (circuitB w)) (repeats (circuitB w))"
  let ?T = "\<lparr>stepType = TransitionRest, label = ''Transition rest'',
             durationSeconds = transitionRestSeconds w, circuitId = B\<rparr>"
  have basic:
    "(enabled (circuitB w) \<and> transitionRestSeconds w > 0 \<longrightarrow>
      buildSteps w = ?as @ [?T] @ ?bs
      \<and> filter (\<lambda>s. stepType s = TransitionRest) (buildSteps w) = [?T])
   \<and> (\<forall>r. filter (\<lambda>s. stepType s = TransitionRest)
              (buildSteps (w\<lparr>restBetweenCircuitsSeconds := r\<rparr>))
           = filter (\<lambda>s. stepType s = TransitionRest) (buildSteps w))
   \<and> (\<not> enabled (circuitB w) \<or> transitionRestSeconds w \<le> 0 \<longrightarrow>
        filter (\<lambda>s. stepType s = TransitionRest) (buildSteps w) = [])"
    by (simp add: buildSteps_def buildStepsForCircuit_no_transition transitionRestStep_def)
  have position:
    "buildSteps w ! length ?as = ?T \<and> Suc (length ?as) < length (buildSteps w)
     \<and> buildSteps w ! Suc (length ?as) =
          \<lparr>stepType = Exercise, label = name (hd (exercises (circuitB w))),
           durationSeconds =
             (case secondsOverride (hd (exercises (circuitB w))) of
                Some d \<Rightarrow> d | None \<Rightarrow> workSeconds w),
           circuitId = B\<rparr>
     \<and> (\<forall>i. i < length ?as \<longrightarrow> circuitId (buildSteps w ! i) = A)
     \<and> (\<forall>i. length ?as < i \<and> i < length (buildSteps w) \<longrightarrow>
            circuitId (buildSteps w ! i) = B
            \<and> stepType (buildSteps w ! i) \<noteq> TransitionRest)"
    if h: "enabled (circuitB w) \<and> transitionRestSeconds w > 0
        \<and> exercises (circuitB w) \<noteq> [] \<and> 1 \<le> repeats (circuitB w)"
  proof -
    from h basic have eq: "buildSteps w = ?as @ ?T # ?bs"
      by simp
    from h have ne: "?bs \<noteq> []" and first: "?bs ! 0 = exerciseStep B w (hd (exercises (circuitB w)))"
      by (simp_all add: buildStepsForCircuit_first)
    have t: "buildSteps w ! length ?as = ?T"
      unfolding eq by simp
    from ne have l: "Suc (length ?as) < length (buildSteps w)"
      unfolding eq by (cases ?bs) simp_all
    have f: "buildSteps w ! Suc (length ?as) = ?bs ! 0"
      unfolding eq by (simp add: nth_append)
    have a: "circuitId (buildSteps w ! i) = A" if "i < length ?as" for i
    proof -
      from that have "buildSteps w ! i = ?as ! i"
        unfolding eq by (simp add: nth_append)
      moreover from that have "?as ! i \<in> set ?as"
        by (rule nth_mem)
      ultimately show ?thesis
        by (auto dest: buildStepsForCircuit_member)
    qed
    have b: "circuitId (buildSteps w ! i) = B \<and> stepType (buildSteps w ! i) \<noteq> TransitionRest"
      if "length ?as < i \<and> i < length (buildSteps w)" for i
    proof -
      from that have k: "i - Suc (length ?as) < length ?bs"
        unfolding eq by auto
      from that have "buildSteps w ! i = ?bs ! (i - Suc (length ?as))"
        unfolding eq by (auto simp add: nth_append nth_Cons')
      moreover from k have "?bs ! (i - Suc (length ?as)) \<in> set ?bs"
        by (rule nth_mem)
      ultimately show ?thesis
        by (auto dest: buildStepsForCircuit_member)
    qed
    from t l f first a b show ?thesis
      by (simp add: exerciseStep_def)
  qed
  have old:
    "filter (\<lambda>s. stepType s = TransitionRest) (buildStepsOld w) = []
   \<and> (enabled (circuitB w) \<and> restBetweenCircuitsSeconds w > 0 \<longrightarrow>
        buildStepsOld w =
          buildStepsForCircuitOld A w (map name (exercises (circuitA w))) (repeats (circuitA w))
          @ [\<lparr>stepType = CircuitRest, label = ''Rest (before Circuit B)'',
               durationSeconds = restBetweenCircuitsSeconds w, circuitId = B\<rparr>]
          @ buildStepsForCircuitOld B w (map name (exercises (circuitB w)))
              (repeats (circuitB w)))
   \<and> (enabled (circuitB w) \<and> restBetweenCircuitsSeconds w \<le> 0 \<longrightarrow>
        buildStepsOld w =
          buildStepsForCircuitOld A w (map name (exercises (circuitA w))) (repeats (circuitA w))
          @ buildStepsForCircuitOld B w (map name (exercises (circuitB w)))
              (repeats (circuitB w)))"
    by (simp add: buildStepsOld_no_transition) (simp add: buildStepsOld_def beforeCircuitBStepOld_def)
  have c2: "enabled (circuitB w) \<and> transitionRestSeconds w > 0
        \<and> exercises (circuitB w) \<noteq> [] \<and> 1 \<le> repeats (circuitB w) \<longrightarrow>
        (let n = length ?as
         in buildSteps w ! n = ?T
            \<and> Suc n < length (buildSteps w)
            \<and> buildSteps w ! Suc n =
              \<lparr>stepType = Exercise, label = name (hd (exercises (circuitB w))),
               durationSeconds =
                 (case secondsOverride (hd (exercises (circuitB w))) of
                    Some d \<Rightarrow> d | None \<Rightarrow> workSeconds w),
               circuitId = B\<rparr>
            \<and> (\<forall>i. i < n \<longrightarrow> circuitId (buildSteps w ! i) = A)
            \<and> (\<forall>i. n < i \<and> i < length (buildSteps w) \<longrightarrow>
                   circuitId (buildSteps w ! i) = B
                   \<and> stepType (buildSteps w ! i) \<noteq> TransitionRest))"
    unfolding Let_def by (rule impI) (rule position)
  note c1 = basic [THEN conjunct1]
    and c3 = basic [THEN conjunct2, THEN conjunct1]
    and c4 = basic [THEN conjunct2, THEN conjunct2]
    and o1 = old [THEN conjunct1]
    and o2 = old [THEN conjunct2, THEN conjunct1]
    and o3 = old [THEN conjunct2, THEN conjunct2]
  from c1 c2 c3 c4 o1 o2 o3 show ?thesis
    by (intro conjI)
qed

theorem buildSteps_transition_rest_witness:
  "filter (\<lambda>s. stepType s = TransitionRest) (buildSteps exampleTwoCircuits) =
     [\<lparr>stepType = TransitionRest, label = ''Transition rest'', durationSeconds = 30, circuitId = B\<rparr>]
   \<and> buildSteps exampleTwoCircuits ! 7 =
     \<lparr>stepType = TransitionRest, label = ''Transition rest'', durationSeconds = 30, circuitId = B\<rparr>
   \<and> buildSteps exampleTwoCircuits ! 8 =
     \<lparr>stepType = Exercise, label = ''Push-ups'', durationSeconds = 45, circuitId = B\<rparr>
   \<and> circuitId (buildSteps exampleTwoCircuits ! 6) = A
   \<and> filter (\<lambda>s. stepType s = TransitionRest) (buildSteps exampleOneCircuit) = []
   \<and> buildStepsOld exampleTwoCircuits ! 7 =
     \<lparr>stepType = CircuitRest, label = ''Rest (before Circuit B)'', durationSeconds = 60,
      circuitId = B\<rparr>"
proof -
  have h0: "enabled (circuitB exampleTwoCircuits) \<and> transitionRestSeconds exampleTwoCircuits > 0"
    by (simp add: exampleTwoCircuits_def)
  have h2: "enabled (circuitB exampleTwoCircuits) \<and> transitionRestSeconds exampleTwoCircuits > 0
      \<and> exercises (circuitB exampleTwoCircuits) \<noteq> [] \<and> 1 \<le> repeats (circuitB exampleTwoCircuits)"
    by (simp add: exampleTwoCircuits_def)
  have h1: "\<not> enabled (circuitB exampleOneCircuit) \<or> transitionRestSeconds exampleOneCircuit \<le> 0"
    by (simp add: exampleOneCircuit_def)
  have h3: "enabled (circuitB exampleTwoCircuits) \<and> restBetweenCircuitsSeconds exampleTwoCircuits > 0"
    by (simp add: exampleTwoCircuits_def)
  have d: "transitionRestSeconds exampleTwoCircuits = 30" "workSeconds exampleTwoCircuits = 45"
    "restBetweenCircuitsSeconds exampleTwoCircuits = 60"
    "hd (exercises (circuitB exampleTwoCircuits)) = \<lparr>name = ''Push-ups'', secondsOverride = None\<rparr>"
    by (simp_all add: exampleTwoCircuits_def)
  have n: "length (buildStepsForCircuit A exampleTwoCircuits
             (exercises (circuitA exampleTwoCircuits)) (repeats (circuitA exampleTwoCircuits))) = 7"
    by (simp add: exampleTwoCircuits_def buildStepsForCircuit_def repeatLoop.simps)
  have m: "length (buildStepsForCircuitOld A exampleTwoCircuits
             (map name (exercises (circuitA exampleTwoCircuits)))
             (repeats (circuitA exampleTwoCircuits))) = 7"
    by (simp add: exampleTwoCircuits_def buildStepsForCircuitOld_def repeatLoopOld.simps)
  from buildSteps_transition_rest [of exampleTwoCircuits] h0 have
    "filter (\<lambda>s. stepType s = TransitionRest) (buildSteps exampleTwoCircuits) =
       [\<lparr>stepType = TransitionRest, label = ''Transition rest'',
         durationSeconds = transitionRestSeconds exampleTwoCircuits, circuitId = B\<rparr>]"
    by blast
  moreover from buildSteps_transition_rest [of exampleTwoCircuits] h2 have
    "let n = length (buildStepsForCircuit A exampleTwoCircuits
                 (exercises (circuitA exampleTwoCircuits)) (repeats (circuitA exampleTwoCircuits)))
     in buildSteps exampleTwoCircuits ! n =
              \<lparr>stepType = TransitionRest, label = ''Transition rest'',
               durationSeconds = transitionRestSeconds exampleTwoCircuits, circuitId = B\<rparr>
            \<and> Suc n < length (buildSteps exampleTwoCircuits)
            \<and> buildSteps exampleTwoCircuits ! Suc n =
              \<lparr>stepType = Exercise, label = name (hd (exercises (circuitB exampleTwoCircuits))),
               durationSeconds =
                 (case secondsOverride (hd (exercises (circuitB exampleTwoCircuits))) of
                    Some d \<Rightarrow> d | None \<Rightarrow> workSeconds exampleTwoCircuits),
               circuitId = B\<rparr>
            \<and> (\<forall>i. i < n \<longrightarrow> circuitId (buildSteps exampleTwoCircuits ! i) = A)
            \<and> (\<forall>i. n < i \<and> i < length (buildSteps exampleTwoCircuits) \<longrightarrow>
                   circuitId (buildSteps exampleTwoCircuits ! i) = B
                   \<and> stepType (buildSteps exampleTwoCircuits ! i) \<noteq> TransitionRest)"
    by blast
  then have
    "buildSteps exampleTwoCircuits ! 7 =
       \<lparr>stepType = TransitionRest, label = ''Transition rest'',
        durationSeconds = transitionRestSeconds exampleTwoCircuits, circuitId = B\<rparr>
     \<and> buildSteps exampleTwoCircuits ! Suc 7 =
       \<lparr>stepType = Exercise, label = name (hd (exercises (circuitB exampleTwoCircuits))),
        durationSeconds =
          (case secondsOverride (hd (exercises (circuitB exampleTwoCircuits))) of
             Some d \<Rightarrow> d | None \<Rightarrow> workSeconds exampleTwoCircuits),
        circuitId = B\<rparr>
     \<and> circuitId (buildSteps exampleTwoCircuits ! 6) = A"
    by (simp add: Let_def n)
  moreover from buildSteps_transition_rest [of exampleOneCircuit] h1 have
    "filter (\<lambda>s. stepType s = TransitionRest) (buildSteps exampleOneCircuit) = []"
    by blast
  moreover from buildSteps_transition_rest [of exampleTwoCircuits] h3 have
    "buildStepsOld exampleTwoCircuits =
       buildStepsForCircuitOld A exampleTwoCircuits
         (map name (exercises (circuitA exampleTwoCircuits)))
         (repeats (circuitA exampleTwoCircuits))
       @ [\<lparr>stepType = CircuitRest, label = ''Rest (before Circuit B)'',
            durationSeconds = restBetweenCircuitsSeconds exampleTwoCircuits, circuitId = B\<rparr>]
       @ buildStepsForCircuitOld B exampleTwoCircuits
           (map name (exercises (circuitB exampleTwoCircuits)))
           (repeats (circuitB exampleTwoCircuits))"
    by blast
  then have "buildStepsOld exampleTwoCircuits ! 7 =
       \<lparr>stepType = CircuitRest, label = ''Rest (before Circuit B)'',
        durationSeconds = restBetweenCircuitsSeconds exampleTwoCircuits, circuitId = B\<rparr>"
    using m by (simp add: nth_append)
  ultimately show ?thesis
    by (simp add: d)
qed

text \<open>The claim as first stated, for every builder of the program, fails on the oldest one:
  for the two-circuit example, with circuit B enabled and 30 seconds of transition rest, the
  step before circuit B's exercise is a circuit rest of the 60 seconds of
  \<^verbatim>\<open>restBetweenCircuitsSeconds\<close>, and with that field set to 0 no step is put there at all.\<close>

theorem buildSteps_transition_rest_counterexample:
  "enabled (circuitB exampleTwoCircuits) \<and> transitionRestSeconds exampleTwoCircuits = 30
   \<and> map stepType (buildStepsOld exampleTwoCircuits) =
       [Exercise, Rest, Exercise, CircuitRest, Exercise, Rest, Exercise, CircuitRest, Exercise]
   \<and> map durationSeconds (buildStepsOld exampleTwoCircuits) =
       [45, 15, 45, 60, 45, 15, 45, 60, 45]
   \<and> map circuitId (buildStepsOld exampleTwoCircuits) = [A, A, A, A, A, A, A, B, B]
   \<and> map stepType (buildStepsOld (exampleTwoCircuits\<lparr>restBetweenCircuitsSeconds := 0\<rparr>)) =
       [Exercise, Rest, Exercise, Exercise, Rest, Exercise, Exercise]"
  by (simp add: exampleTwoCircuits_def buildStepsOld_eval)

text \<open>Claim C2. The exercise steps of circuit A in the built sequence are, repetition after
  repetition, one step per exercise of the circuit in order, labelled with the exercise's name
  and lasting the exercise's \<^verbatim>\<open>secondsOverride\<close> when it has one and \<^verbatim>\<open>workSeconds\<close> otherwise;
  likewise for circuit B when it is enabled, and circuit B contributes no exercise step when it
  is disabled.\<close>

theorem buildSteps_exercise_durations:
  "filter (\<lambda>s. stepType s = Exercise \<and> circuitId s = A) (buildSteps w) =
     concat (replicate (nat (repeats (circuitA w)))
       (map (\<lambda>ex. \<lparr>stepType = Exercise, label = name ex,
                    durationSeconds = (case secondsOverride ex of Some n \<Rightarrow> n | None \<Rightarrow> workSeconds w),
                    circuitId = A\<rparr>)
            (exercises (circuitA w))))
   \<and> filter (\<lambda>s. stepType s = Exercise \<and> circuitId s = B) (buildSteps w) =
       (if enabled (circuitB w) then
          concat (replicate (nat (repeats (circuitB w)))
            (map (\<lambda>ex. \<lparr>stepType = Exercise, label = name ex,
                         durationSeconds = (case secondsOverride ex of Some n \<Rightarrow> n | None \<Rightarrow> workSeconds w),
                         circuitId = B\<rparr>)
                 (exercises (circuitB w))))
        else [])"
proof -
  have ex: "exerciseStep c w = (\<lambda>ex. \<lparr>stepType = Exercise, label = name ex,
                    durationSeconds = (case secondsOverride ex of Some n \<Rightarrow> n | None \<Rightarrow> workSeconds w),
                    circuitId = c\<rparr>)" for c
    by (rule ext) (simp add: exerciseStep_def)
  show ?thesis
    by (simp add: buildSteps_circuit_exercise_steps ex [symmetric])
qed

theorem buildSteps_exercise_durations_witness:
  "map durationSeconds
     (filter (\<lambda>s. stepType s = Exercise \<and> circuitId s = A) (buildSteps exampleTwoCircuits))
   = [45, 60, 45, 60]
   \<and> map durationSeconds
     (filter (\<lambda>s. stepType s = Exercise \<and> circuitId s = B) (buildSteps exampleTwoCircuits))
   = [45]"
proof -
  have r: "nat (repeats (circuitA exampleTwoCircuits)) = Suc (Suc 0)"
    "nat (repeats (circuitB exampleTwoCircuits)) = Suc 0"
    by (simp_all add: exampleTwoCircuits_def)
  have v: "exercises (circuitA exampleTwoCircuits) =
      [\<lparr>name = ''Squats'', secondsOverride = None\<rparr>, \<lparr>name = ''Plank'', secondsOverride = Some 60\<rparr>]"
    "exercises (circuitB exampleTwoCircuits) = [\<lparr>name = ''Push-ups'', secondsOverride = None\<rparr>]"
    "enabled (circuitB exampleTwoCircuits)" "workSeconds exampleTwoCircuits = 45"
    by (simp_all add: exampleTwoCircuits_def)
  show ?thesis
    by (simp add: buildSteps_exercise_durations [of exampleTwoCircuits] r v)
qed

text \<open>Claim C3. With circuit B disabled, \<open>N1 \<ge> 1\<close> exercises and \<open>R1 \<ge> 1\<close> repetitions in
  circuit A, the built sequence has \<open>R1 * N1\<close> exercise steps, \<open>R1 * (N1 - 1)\<close> rest steps when
  \<^verbatim>\<open>restBetweenExercisesSeconds\<close> is positive and none otherwise, \<open>R1 - 1\<close> circuit rest steps
  when \<^verbatim>\<open>restBetweenCircuitsSeconds\<close> is positive and none otherwise, no transition rest step,
  and its length is the sum of these counts.\<close>

theorem buildSteps_counts_single_circuit:
  assumes "\<not> enabled (circuitB w)"
    and "exercises (circuitA w) \<noteq> []"
    and "repeats (circuitA w) \<ge> 1"
  shows
  "int (length (filter (\<lambda>s. stepType s = Exercise) (buildSteps w)))
     = repeats (circuitA w) * int (length (exercises (circuitA w)))
   \<and> int (length (filter (\<lambda>s. stepType s = Rest) (buildSteps w)))
     = (if restBetweenExercisesSeconds w > 0
        then repeats (circuitA w) * (int (length (exercises (circuitA w))) - 1) else 0)
   \<and> int (length (filter (\<lambda>s. stepType s = CircuitRest) (buildSteps w)))
     = (if restBetweenCircuitsSeconds w > 0 then repeats (circuitA w) - 1 else 0)
   \<and> filter (\<lambda>s. stepType s = TransitionRest) (buildSteps w) = []
   \<and> int (length (buildSteps w))
     = repeats (circuitA w) * int (length (exercises (circuitA w)))
       + (if restBetweenExercisesSeconds w > 0
          then repeats (circuitA w) * (int (length (exercises (circuitA w))) - 1) else 0)
       + (if restBetweenCircuitsSeconds w > 0 then repeats (circuitA w) - 1 else 0)"
proof -
  let ?R = "repeats (circuitA w)" and ?exs = "exercises (circuitA w)"
  have bs: "buildSteps w = repeatLoop A w ?exs ?R 1"
    using assms(1) by (simp add: buildSteps_def buildStepsForCircuit_def)
  from assms(2) have n: "int (length ?exs - Suc 0) = int (length ?exs) - 1"
    by (cases ?exs) simp_all
  have e: "int (length (filter (\<lambda>s. stepType s = Exercise) (buildSteps w))) = ?R * int (length ?exs)"
    using assms(3) by (simp add: bs repeatLoop_exercises length_concat sum_list_replicate)
  have rs: "int (length (filter (\<lambda>s. stepType s = Rest) (buildSteps w)))
     = (if restBetweenExercisesSeconds w > 0 then ?R * (int (length ?exs) - 1) else 0)"
    using assms(3) by (simp add: bs repeatLoop_rests n)
  have cr: "int (length (filter (\<lambda>s. stepType s = CircuitRest) (buildSteps w)))
     = (if restBetweenCircuitsSeconds w > 0 then ?R - 1 else 0)"
    using assms(3) by (simp add: bs repeatLoop_circuitRests)
  have tr: "filter (\<lambda>s. stepType s = TransitionRest) (buildSteps w) = []"
    by (auto simp add: bs filter_empty_conv dest: repeatLoop_member)
  have len: "int (length (buildSteps w))
     = ?R * int (length ?exs)
       + (if restBetweenExercisesSeconds w > 0 then ?R * (int (length ?exs) - 1) else 0)
       + (if restBetweenCircuitsSeconds w > 0 then ?R - 1 else 0)"
    using assms(3) by (simp add: bs repeatLoop_length exerciseLoop_length n algebra_simps)
  from e rs cr tr len show ?thesis by (simp only: simp_thms)
qed

theorem buildSteps_counts_single_circuit_witness:
  "length (filter (\<lambda>s. stepType s = Exercise) (buildSteps exampleOneCircuit)) = 4
   \<and> length (filter (\<lambda>s. stepType s = Rest) (buildSteps exampleOneCircuit)) = 2
   \<and> length (filter (\<lambda>s. stepType s = CircuitRest) (buildSteps exampleOneCircuit)) = 1
   \<and> length (buildSteps exampleOneCircuit) = 7"
proof -
  have h: "\<not> enabled (circuitB exampleOneCircuit)" "exercises (circuitA exampleOneCircuit) \<noteq> []" "repeats (circuitA exampleOneCircuit) \<ge> 1"
    by (simp_all add: exampleOneCircuit_def)
  have v: "repeats (circuitA exampleOneCircuit) = 2" "length (exercises (circuitA exampleOneCircuit)) = 2"
    "restBetweenExercisesSeconds exampleOneCircuit = 15" "restBetweenCircuitsSeconds exampleOneCircuit = 60"
    by (simp_all add: exampleOneCircuit_def)
  from buildSteps_counts_single_circuit [OF h] show ?thesis
    by (simp add: v)
qed

section \<open>Properties of the helpers\<close>

lemmas parseInt_eval =
  parseInt_def codeUnits_def isStrWhiteSpaceChar_def isDecimalDigit_def digitsValue_def

text \<open>Claim C10. When \<^verbatim>\<open>Number.parseInt\<close> gives \<^verbatim>\<open>NaN\<close> for the input string, \<^verbatim>\<open>clampInt\<close>
  returns the fallback as it is, whatever the minimum; when the string parses to \<open>n\<close>,
  it returns the larger of the minimum and \<open>n\<close>.\<close>

theorem clampInt_fallback_or_max:
  "(parseInt v = None \<longrightarrow> clampInt v minv fallback = fallback)
   \<and> (\<forall>n. parseInt v = Some n \<longrightarrow> clampInt v minv fallback = max minv n)"
  by (simp add: clampInt_def)

theorem clampInt_fallback_or_max_witness:
  "clampInt (codeUnits ''abc'') 5 0 = 0 \<and> clampInt (codeUnits '' -12px'') 0 15 = 0
   \<and> clampInt (codeUnits ''90'') 1 45 = 90"
proof -
  have a: "parseInt (codeUnits ''abc'') = None"
    by (simp add: parseInt_eval)
  have b: "parseInt (codeUnits '' -12px'') = Some (- 12)"
    by (simp add: parseInt_eval)
  have c: "parseInt (codeUnits ''90'') = Some 90"
    by (simp add: parseInt_eval)
  from clampInt_fallback_or_max [of "codeUnits ''abc''" 5 0] a
  have "clampInt (codeUnits ''abc'') 5 0 = 0" by blast
  moreover from clampInt_fallback_or_max [of "codeUnits '' -12px''" 0 15] b
  have "clampInt (codeUnits '' -12px'') 0 15 = max 0 (- 12)" by blast
  moreover from clampInt_fallback_or_max [of "codeUnits ''90''" 1 45] c
  have "clampInt (codeUnits ''90'') 1 45 = max 1 90" by blast
  ultimately show ?thesis by simp
qed

section \<open>Properties of the run controller\<close>

subsection \<open>Effect of the functions on the fields\<close>

lemma phase_Finished: "phase s = Finished \<longleftrightarrow> isFinished s"
  by (simp add: phase_def)

lemma phase_Running: "phase s = Running \<longleftrightarrow> isRunning s \<and> \<not> isFinished s"
  by (simp add: phase_def)

lemma stopTimer_fields [simp]:
  "steps (stopTimer s) = steps s"
  "workout (stopTimer s) = workout s"
  "currentStepIndex (stopTimer s) = currentStepIndex s"
  "secondsRemaining (stopTimer s) = secondsRemaining s"
  "hasStarted (stopTimer s) = hasStarted s"
  "isFinished (stopTimer s) = isFinished s"
  "isRunning (stopTimer s) = False"
  "intervalId (stopTimer s) = None"
  "timers (stopTimer s) = (case intervalId s of None \<Rightarrow> timers s | Some h \<Rightarrow> removeAll h (timers s))"
  by (simp_all add: stopTimer_def clearInterval_def Let_def split: option.splits)

lemma startTimer_fields [simp]:
  "steps (startTimer s) = steps s"
  "workout (startTimer s) = workout s"
  "currentStepIndex (startTimer s) = currentStepIndex s"
  "secondsRemaining (startTimer s) = secondsRemaining s"
  "isFinished (startTimer s) = isFinished s"
  by (simp_all add: startTimer_def Let_def)

lemma startTimer_running:
  "steps s \<noteq> [] \<Longrightarrow> \<not> isFinished s \<Longrightarrow> isRunning (startTimer s)"
  by (simp add: startTimer_def Let_def)

lemma cues_fields [simp]:
  "steps (cues s) = steps s"
  "workout (cues s) = workout s"
  "currentStepIndex (cues s) = currentStepIndex s"
  "secondsRemaining (cues s) = secondsRemaining s"
  "intervalId (cues s) = intervalId s"
  "isRunning (cues s) = isRunning s"
  "hasStarted (cues s) = hasStarted s"
  "isFinished (cues s) = isFinished s"
  "timers (cues s) = timers s"
  "timerSeq (cues s) = timerSeq s"
  by (simp_all add: cues_def Let_def)

lemma setStep_Some:
  assumes "index < length (steps s)"
  shows "\<exists>s'. setStep index prev s = Some s' \<and> steps s' = steps s \<and> workout s' = workout s
     \<and> currentStepIndex s' = index \<and> secondsRemaining s' = durationSeconds (steps s ! index)
     \<and> intervalId s' = intervalId s \<and> isRunning s' = isRunning s \<and> hasStarted s' = hasStarted s
     \<and> isFinished s' = isFinished s \<and> timers s' = timers s \<and> timerSeq s' = timerSeq s"
  using assms by (auto simp add: setStep_def render_def Let_def)

lemma goToNextStep_finish:
  assumes "Suc (currentStepIndex s) \<ge> length (steps s)"
  shows "goToNextStep ac s = Some ((stopTimer s)\<lparr>isFinished := True, secondsRemaining := 0\<rparr>)"
  using assms by (simp add: goToNextStep_def render_def Let_def)

lemma goToNextStep_advance:
  assumes "Suc (currentStepIndex s) < length (steps s)"
  shows "\<exists>s2. setStep (Suc (currentStepIndex s))
               (if currentStepIndex s < length (steps s)
                  then Some (steps s ! currentStepIndex s) else None)
               ((stopTimer s)\<lparr>isFinished := False\<rparr>) = Some s2
          \<and> goToNextStep ac s = Some (if ac then startTimer s2 else s2)"
proof -
  from assms have "Suc (currentStepIndex s) < length (steps ((stopTimer s)\<lparr>isFinished := False\<rparr>))"
    by simp
  from setStep_Some [OF this] obtain s2 where
    "setStep (Suc (currentStepIndex s))
               (if currentStepIndex s < length (steps s)
                  then Some (steps s ! currentStepIndex s) else None)
               ((stopTimer s)\<lparr>isFinished := False\<rparr>) = Some s2"
    by blast
  with assms show ?thesis
    by (simp add: goToNextStep_def Let_def)
qed


lemma bitLength_le: "bitLength n \<le> k \<longleftrightarrow> n < 2 ^ k"
proof (induction k arbitrary: n)
  case 0
  show ?case by (subst bitLength.simps) simp
next
  case (Suc k)
  have "n div 2 < 2 ^ k \<longleftrightarrow> n < 2 ^ Suc k"
    by (simp add: div_less_iff_less_mult mult.commute)
  with Suc [of "n div 2"] show ?case
    by (subst bitLength.simps) simp
qed

lemma roundToDouble_exact: "\<bar>n\<bar> < 2 ^ 53 \<Longrightarrow> roundToDouble n = n"
proof -
  assume "\<bar>n\<bar> < 2 ^ 53"
  then have "nat \<bar>n\<bar> < 2 ^ 53"
    by (simp add: nat_less_iff)
  then have "bitLength (nat \<bar>n\<bar>) \<le> 53"
    by (simp only: bitLength_le)
  then show ?thesis
    by (simp add: roundToDouble_def Let_def)
qed

lemma tick_counting:
  assumes "roundToDouble (secondsRemaining s - 1) > 0" and "currentStepIndex s < length (steps s)"
  shows "tick s = Some (cues (s\<lparr>secondsRemaining := roundToDouble (secondsRemaining s - 1)\<rparr>))"
  using assms by (simp add: tick_def render_def Let_def)

lemma tick_exhausted:
  assumes "roundToDouble (secondsRemaining s - 1) \<le> 0"
  shows "tick s = goToNextStep True (cues (s\<lparr>secondsRemaining := roundToDouble (secondsRemaining s - 1)\<rparr>))"
  using assms by (simp add: tick_def Let_def)

lemma wellFormed_timers_stop:
  "wellFormed s \<Longrightarrow> timers (stopTimer s) = []"
  by (auto simp add: wellFormed_def split: option.splits)

subsection \<open>The invariant of the reachable states\<close>

lemma wellFormed_initialState: "wellFormed initialState"
  by (simp add: wellFormed_def initialState_def)

lemma wellFormed_stopTimer: "wellFormed s \<Longrightarrow> wellFormed (stopTimer s)"
  by (auto simp add: wellFormed_def split: option.splits)

lemma wellFormed_startTimer: "wellFormed s \<Longrightarrow> wellFormed (startTimer s)"
  by (auto simp add: wellFormed_def startTimer_def Let_def)

lemma wellFormed_cues:
  "wellFormed s \<Longrightarrow> wellFormed (cues s)"
  by (simp add: wellFormed_def)

lemma wellFormed_goToNextStep:
  assumes "wellFormed s" and "steps s \<noteq> []"
  shows "\<exists>s'. goToNextStep ac s = Some s' \<and> wellFormed s'"
proof (cases "Suc (currentStepIndex s) < length (steps s)")
  case True
  from goToNextStep_advance [OF this, of ac] obtain s2 where
    s2: "setStep (Suc (currentStepIndex s))
               (if currentStepIndex s < length (steps s)
                  then Some (steps s ! currentStepIndex s) else None)
               ((stopTimer s)\<lparr>isFinished := False\<rparr>) = Some s2"
    and g: "goToNextStep ac s = Some (if ac then startTimer s2 else s2)"
    by auto
  from True have "Suc (currentStepIndex s) < length (steps ((stopTimer s)\<lparr>isFinished := False\<rparr>))"
    by simp
  from setStep_Some [OF this, of "if currentStepIndex s < length (steps s)
                  then Some (steps s ! currentStepIndex s) else None"] s2
  have "steps s2 = steps s" "currentStepIndex s2 = Suc (currentStepIndex s)"
    "\<not> isRunning s2" "\<not> isFinished s2" "timers s2 = []" "intervalId s2 = None"
    using wellFormed_timers_stop [OF assms(1)] by auto
  with True have "wellFormed s2"
    by (simp add: wellFormed_def)
  with g show ?thesis
    by (auto intro: wellFormed_startTimer)
next
  case False
  then have le: "Suc (currentStepIndex s) \<ge> length (steps s)" by simp
  with assms have "Suc (currentStepIndex s) = length (steps s)"
    by (auto simp add: wellFormed_def)
  with goToNextStep_finish [OF le, of ac] wellFormed_timers_stop [OF assms(1)] show ?thesis
    by (simp add: wellFormed_def)
qed

lemma wellFormed_tick:
  assumes "wellFormed s" and "timers s \<noteq> []"
  shows "\<exists>s'. tick s = Some s' \<and> wellFormed s'"
proof -
  from assms have run: "isRunning s" "\<not> isFinished s" "steps s \<noteq> []"
    "currentStepIndex s < length (steps s)"
    by (auto simp add: wellFormed_def split: option.splits)
  let ?s1 = "s\<lparr>secondsRemaining := roundToDouble (secondsRemaining s - 1)\<rparr>"
  from assms(1) run have wf: "wellFormed (cues ?s1)"
    by (intro wellFormed_cues) (simp add: wellFormed_def)
  show ?thesis
  proof (cases "roundToDouble (secondsRemaining s - 1) > 0")
    case True
    with run wf show ?thesis by (simp add: tick_counting)
  next
    case False
    with wellFormed_goToNextStep [OF wf, of True] run show ?thesis
      by (simp add: tick_exhausted)
  qed
qed

lemma wellFormed_skipStep:
  assumes "wellFormed s"
  shows "\<exists>s'. skipStep s = Some s' \<and> wellFormed s'"
  using assms wellFormed_goToNextStep [of s "isRunning s"]
  by (auto simp add: skipStep_def)

lemma wellFormed_resetWorkout:
  assumes "wellFormed s"
  shows "\<exists>s'. resetWorkout s = Some s' \<and> wellFormed s'"
proof (cases "steps s = []")
  case True
  with wellFormed_stopTimer [OF assms] show ?thesis
    by (simp add: resetWorkout_def Let_def wellFormed_def)
next
  case False
  let ?s1 = "(stopTimer s)\<lparr>lastHalfCueStepIndex := None, lastFinalCueKey := None,
                        lastSpokenRestStepIndex := None\<rparr>"
  from False have "0 < length (steps ?s1)" by simp
  from setStep_Some [OF this, of None] obtain s2 where
    s2: "setStep 0 None ?s1 = Some s2" and
    f: "steps s2 = steps s" "currentStepIndex s2 = 0" "\<not> isRunning s2"
       "intervalId s2 = None" "timers s2 = timers (stopTimer s)"
    by auto
  with False wellFormed_timers_stop [OF assms] show ?thesis
    by (simp add: resetWorkout_def Let_def wellFormed_def)
qed

lemma wellFormed_runOp:
  assumes "wellFormed s" and "op = Tick \<longrightarrow> timers s \<noteq> []"
  shows "\<exists>s'. runOp op s = Some s' \<and> wellFormed s'"
  using assms
  by (cases op)
     (simp_all add: wellFormed_startTimer wellFormed_stopTimer wellFormed_tick
        wellFormed_skipStep wellFormed_resetWorkout)

lemma exerciseLoop_nonempty: "exs \<noteq> [] \<Longrightarrow> exerciseLoop c w exs \<noteq> []"
  by (cases exs) (simp_all add: Let_def)

lemma buildSteps_nonempty:
  assumes "validWorkout w"
  shows "buildSteps w \<noteq> []"
proof -
  from assms have "exercises (circuitA w) \<noteq> []" "1 \<le> repeats (circuitA w)"
    by (simp_all add: validWorkout_def)
  then have "repeatLoop A w (exercises (circuitA w)) (repeats (circuitA w)) 1 \<noteq> []"
    by (subst repeatLoop.simps) (simp add: Let_def exerciseLoop_nonempty)
  then show ?thesis
    by (simp add: buildSteps_def buildStepsForCircuit_def)
qed

lemma wellFormed_startWorkout:
  assumes "wellFormed s" and "validWorkout w"
  shows "\<exists>s'. startWorkout w s = Some s' \<and> wellFormed s'
     \<and> steps s' = buildSteps w \<and> workout s' = Some w"
proof -
  let ?s1 = "s\<lparr>workout := Some w, steps := buildSteps w,
                     hasStarted := False, isFinished := False,
                     lastHalfCueStepIndex := None, lastFinalCueKey := None,
                     lastSpokenRestStepIndex := None\<rparr>"
  from assms(2) have v: "exercises (circuitA w) \<noteq> []"
    "enabled (circuitB w) \<longrightarrow> exercises (circuitB w) \<noteq> []"
    by (simp_all add: validWorkout_def)
  from buildSteps_nonempty [OF assms(2)] have "0 < length (steps ?s1)" by simp
  from setStep_Some [OF this, of None] obtain s2 where
    s2: "setStep 0 None ?s1 = Some s2" and
    f: "steps s2 = buildSteps w" "workout s2 = Some w" "currentStepIndex s2 = 0"
       "\<not> isFinished s2" "intervalId s2 = intervalId s" "timers s2 = timers s"
       "hasStarted s2 = False"
    by auto
  from f assms(1) have t: "timers (stopTimer s2) = []"
    by (auto simp add: wellFormed_def split: option.splits)
  from f buildSteps_nonempty [OF assms(2)] t have "render (stopTimer s2) = Some (stopTimer s2)"
    "wellFormed (stopTimer s2)"
    by (simp_all add: render_def wellFormed_def)
  with v s2 f show ?thesis
    by (auto simp add: startWorkout_def Let_def)
qed

lemma reachable_wellFormed: "reachable s \<Longrightarrow> wellFormed s"
proof (induction rule: reachable.induct)
  case reach_init
  show ?case by (rule wellFormed_initialState)
next
  case (reach_workout s w s')
  with wellFormed_startWorkout [of s w] show ?case by auto
next
  case (reach_op s op s')
  with wellFormed_runOp [of s op] show ?case by auto
qed

subsection \<open>The example states\<close>

lemma buildSteps_exampleOneCircuit:
  "buildSteps exampleOneCircuit =
     [\<lparr>stepType = Exercise, label = ''Squats'', durationSeconds = 45, circuitId = A\<rparr>,
      \<lparr>stepType = Rest, label = ''Rest'', durationSeconds = 15, circuitId = A\<rparr>,
      \<lparr>stepType = Exercise, label = ''Plank'', durationSeconds = 45, circuitId = A\<rparr>,
      \<lparr>stepType = CircuitRest, label = ''Circuit rest'', durationSeconds = 60, circuitId = A\<rparr>,
      \<lparr>stepType = Exercise, label = ''Squats'', durationSeconds = 45, circuitId = A\<rparr>,
      \<lparr>stepType = Rest, label = ''Rest'', durationSeconds = 15, circuitId = A\<rparr>,
      \<lparr>stepType = Exercise, label = ''Plank'', durationSeconds = 45, circuitId = A\<rparr>]"
  by (simp add: exampleOneCircuit_def buildSteps_def buildStepsForCircuit_def repeatLoop.simps
      exerciseStep_def restStep_def circuitRestStep_def)

lemma exampleRunning_fields [simp]:
  "steps (exampleRunning i n) = buildSteps exampleOneCircuit"
  "currentStepIndex (exampleRunning i n) = i"
  "secondsRemaining (exampleRunning i n) = n"
  "isRunning (exampleRunning i n)"
  "\<not> isFinished (exampleRunning i n)"
  by (simp_all add: exampleRunning_def)

lemma buildSteps_exampleShort: "buildSteps exampleShort = shortSteps"
  by (simp add: exampleShort_def shortSteps_def buildSteps_def buildStepsForCircuit_def
      repeatLoop.simps exerciseStep_def restStep_def)

lemma validWorkout_exampleShort: "validWorkout exampleShort"
  by (simp add: validWorkout_def validExercise_def exampleShort_def)

lemmas short_states =
  shortReady_def shortRunning0_def shortRunning1_def shortRunning2_def shortFinished_def
  shortSteps_def

lemmas engine_defs =
  render_def stopTimer_def clearInterval_def startTimer_def setStep_def goToNextStep_def
  cues_def tick_def skipStep_def Let_def roundToDouble_exact

lemma short_run:
  "startWorkout exampleShort initialState = Some shortReady"
  "runOp Start shortReady = Some shortRunning0"
  "runOp Tick shortRunning0 = Some shortRunning1"
  "runOp Skip shortRunning1 = Some shortRunning2"
  "runOp Tick shortRunning2 = Some shortFinished"
proof -
  show "startWorkout exampleShort initialState = Some shortReady"
    unfolding startWorkout_def buildSteps_exampleShort
    by (simp add: exampleShort_def initialState_def short_states engine_defs)
  show "runOp Start shortReady = Some shortRunning0"
    by (simp add: short_states engine_defs)
  show "runOp Tick shortRunning0 = Some shortRunning1"
    by (simp add: short_states engine_defs)
  show "runOp Skip shortRunning1 = Some shortRunning2"
    by (simp add: short_states engine_defs)
  show "runOp Tick shortRunning2 = Some shortFinished"
    by (simp add: short_states engine_defs)
qed

lemma short_reachable:
  "reachable shortReady" "reachable shortRunning0" "reachable shortRunning1"
  "reachable shortRunning2" "reachable shortFinished"
proof -
  show r: "reachable shortReady"
    by (rule reach_workout [OF reach_init validWorkout_exampleShort short_run(1)])
  have t: "timers shortRunning0 \<noteq> []" "timers shortRunning2 \<noteq> []"
    by (simp_all add: short_states)
  show r0: "reachable shortRunning0"
    by (rule reach_op [OF r _ short_run(2)]) simp
  show r1: "reachable shortRunning1"
    by (rule reach_op [OF r0 _ short_run(3)]) (simp add: t)
  show r2: "reachable shortRunning2"
    by (rule reach_op [OF r1 _ short_run(4)]) simp
  show "reachable shortFinished"
    by (rule reach_op [OF r2 _ short_run(5)]) (simp add: t)
qed

lemma roundToDouble_long: "roundToDouble (100000000000000000 - 1) = 100000000000000000"
proof -
  have b: "bitLength 99999999999999999 = 57"
    by (simp add: bitLength.simps)
  show ?thesis
    by (simp add: roundToDouble_def Let_def b)
qed

lemma long_run:
  "startWorkout exampleLong initialState = Some longReady"
  "runOp Start longReady = Some longRunning"
proof -
  have "buildSteps exampleLong =
      [\<lparr>stepType = Exercise, label = ''Plank'',
        durationSeconds = 100000000000000000, circuitId = A\<rparr>]"
    by (simp add: exampleLong_def buildSteps_def buildStepsForCircuit_def repeatLoop.simps
        exerciseStep_def)
  then show "startWorkout exampleLong initialState = Some longReady"
    unfolding startWorkout_def
    by (simp add: exampleLong_def initialState_def longReady_def render_def stopTimer_def
        setStep_def Let_def)
  show "runOp Start longReady = Some longRunning"
    by (simp add: longReady_def longRunning_def startTimer_def Let_def)
qed

lemma long_reachable: "reachable longRunning"
proof -
  have v: "validWorkout exampleLong"
    by (simp add: validWorkout_def validExercise_def exampleLong_def)
  have "reachable longReady"
    by (rule reach_workout [OF reach_init v long_run(1)])
  then show ?thesis
    by (rule reach_op [OF _ _ long_run(2)]) simp
qed

lemma long_tick: "tick longRunning = Some longRunning"
  using roundToDouble_long
  by (simp add: tick_def cues_def render_def Let_def longRunning_def longReady_def)

subsection \<open>The operations\<close>

lemma tick_step_wellFormed:
  assumes "wellFormed s" and "phase s = Running"
    and "0 \<le> secondsRemaining s" and "secondsRemaining s \<le> 2 ^ 53"
  shows "\<exists>s'. tick s = Some s' \<and> steps s' = steps s
    \<and> (if secondsRemaining s - 1 > 0 then
          secondsRemaining s' = secondsRemaining s - 1
          \<and> currentStepIndex s' = currentStepIndex s \<and> phase s' = Running
          \<and> timers s' = timers s
        else if currentStepIndex s + 1 < length (steps s) then
          currentStepIndex s' = currentStepIndex s + 1
          \<and> secondsRemaining s' = durationSeconds (steps s ! (currentStepIndex s + 1))
          \<and> phase s' = Running \<and> length (timers s') = 1
        else
          phase s' = Finished \<and> secondsRemaining s' = 0
          \<and> currentStepIndex s' = currentStepIndex s
          \<and> \<not> isRunning s' \<and> intervalId s' = None \<and> timers s' = [])"
proof -
  from assms(2) have run: "isRunning s" "\<not> isFinished s"
    by (auto simp add: phase_def split: if_splits)
  with assms(1) have idx: "currentStepIndex s < length (steps s)" and ne: "steps s \<noteq> []"
    by (auto simp add: wellFormed_def)
  from assms(3,4) have "\<bar>secondsRemaining s - 1\<bar> < 2 ^ 53"
    by (simp add: abs_less_iff)
  then have rd: "roundToDouble (secondsRemaining s - 1) = secondsRemaining s - 1"
    by (rule roundToDouble_exact)
  let ?s2 = "cues (s\<lparr>secondsRemaining := secondsRemaining s - 1\<rparr>)"
  have wf2: "timers (stopTimer ?s2) = []"
    using assms(1) by (auto simp add: wellFormed_def split: option.splits)
  show ?thesis
  proof (cases "secondsRemaining s - 1 > 0")
    case True
    with idx have "tick s = Some ?s2"
      using tick_counting [of s] by (simp add: rd)
    with True run show ?thesis
      by (simp add: phase_def)
  next
    case False
    then have t: "tick s = goToNextStep True ?s2"
      using tick_exhausted [of s] by (simp add: rd)
    show ?thesis
    proof (cases "currentStepIndex s + 1 < length (steps s)")
      case True
      then have "Suc (currentStepIndex ?s2) < length (steps ?s2)" by simp
      from goToNextStep_advance [OF this, of True] obtain s2 where
        s2: "setStep (Suc (currentStepIndex ?s2))
               (if currentStepIndex ?s2 < length (steps ?s2)
                  then Some (steps ?s2 ! currentStepIndex ?s2) else None)
               ((stopTimer ?s2)\<lparr>isFinished := False\<rparr>) = Some s2"
        and g: "goToNextStep True ?s2 = Some (startTimer s2)"
        by auto
      from True have "Suc (currentStepIndex s) < length (steps ((stopTimer ?s2)\<lparr>isFinished := False\<rparr>))"
        by simp
      from setStep_Some [OF this, of "if currentStepIndex ?s2 < length (steps ?s2)
                  then Some (steps ?s2 ! currentStepIndex ?s2) else None"] s2
      have f: "steps s2 = steps s" "currentStepIndex s2 = Suc (currentStepIndex s)"
        "secondsRemaining s2 = durationSeconds (steps s ! Suc (currentStepIndex s))"
        "\<not> isRunning s2" "\<not> isFinished s2" "timers s2 = []"
        using wf2 by auto
      with ne have "isRunning (startTimer s2)" "length (timers (startTimer s2)) = 1"
        by (simp_all add: startTimer_def Let_def)
      with f t g True False show ?thesis
        by (simp add: phase_def)
    next
      case False
      then have "Suc (currentStepIndex ?s2) \<ge> length (steps ?s2)" by simp
      from goToNextStep_finish [OF this, of True] t wf2 False \<open>\<not> secondsRemaining s - 1 > 0\<close>
      show ?thesis
        by (simp add: phase_def)
    qed
  qed
qed

text \<open>Claim C4. In a reachable state whose phase is Running and whose \<^verbatim>\<open>secondsRemaining\<close> lies
  between 0 and \<open>2^53\<close>, where the subtraction of double arithmetic is exact, a tick returns
  a state with the same steps. When the decremented \<^verbatim>\<open>secondsRemaining\<close> is still positive it is the new value,
  and index, phase and registered interval are as before. When it has reached zero (the code
  tests \<^verbatim>\<open><= 0\<close>) and a next step exists, the index moves to it, \<^verbatim>\<open>secondsRemaining\<close> is that
  step's full duration, the phase is Running again and exactly one interval is registered.
  When it has reached zero on the last step, the phase is Finished, \<^verbatim>\<open>secondsRemaining\<close> is 0,
  the index stays, and no interval is registered any more.\<close>

theorem tick_step:
  assumes "reachable s" and "phase s = Running"
    and "0 \<le> secondsRemaining s" and "secondsRemaining s \<le> 2 ^ 53"
  shows "\<exists>s'. tick s = Some s' \<and> steps s' = steps s
    \<and> (if secondsRemaining s - 1 > 0 then
          secondsRemaining s' = secondsRemaining s - 1
          \<and> currentStepIndex s' = currentStepIndex s \<and> phase s' = Running
          \<and> timers s' = timers s
        else if currentStepIndex s + 1 < length (steps s) then
          currentStepIndex s' = currentStepIndex s + 1
          \<and> secondsRemaining s' = durationSeconds (steps s ! (currentStepIndex s + 1))
          \<and> phase s' = Running \<and> length (timers s') = 1
        else
          phase s' = Finished \<and> secondsRemaining s' = 0
          \<and> currentStepIndex s' = currentStepIndex s
          \<and> \<not> isRunning s' \<and> intervalId s' = None \<and> timers s' = [])"
  using assms by (intro tick_step_wellFormed reachable_wellFormed)

text \<open>Beyond that range a tick need not decrement: with \<open>10^17\<close> seconds on the clock the
  double nearest to \<open>10^17 - 1\<close> is \<open>10^17\<close> again, and the state after the tick is the state
  before it.\<close>

theorem tick_step_counterexample:
  "reachable longRunning \<and> phase longRunning = Running
   \<and> secondsRemaining longRunning = 100000000000000000
   \<and> tick longRunning = Some longRunning"
  by (simp add: long_reachable phase_Running long_tick) (simp add: longRunning_def longReady_def)

theorem tick_step_witness:
  "(\<exists>s'. tick shortRunning1 = Some s' \<and> secondsRemaining s' = 14
        \<and> currentStepIndex s' = 1 \<and> phase s' = Running)
   \<and> (\<exists>s'. tick shortRunning0 = Some s' \<and> secondsRemaining s' = 15
        \<and> currentStepIndex s' = 1 \<and> phase s' = Running \<and> length (timers s') = 1)
   \<and> (\<exists>s'. tick shortRunning2 = Some s' \<and> secondsRemaining s' = 0
        \<and> currentStepIndex s' = 2 \<and> phase s' = Finished \<and> timers s' = [])"
proof -
  have ph: "phase shortRunning0 = Running" "phase shortRunning1 = Running"
    "phase shortRunning2 = Running"
    by (simp_all add: phase_Running short_states)
  have lo: "0 \<le> secondsRemaining shortRunning0" "0 \<le> secondsRemaining shortRunning1"
    "0 \<le> secondsRemaining shortRunning2"
    by (simp_all add: short_states)
  have hi: "secondsRemaining shortRunning0 \<le> 2 ^ 53" "secondsRemaining shortRunning1 \<le> 2 ^ 53"
    "secondsRemaining shortRunning2 \<le> 2 ^ 53"
    by (simp_all add: short_states)
  from tick_step [OF short_reachable(3) ph(2) lo(2) hi(2)] have
    "\<exists>s'. tick shortRunning1 = Some s' \<and> secondsRemaining s' = 14
        \<and> currentStepIndex s' = 1 \<and> phase s' = Running"
    by (auto simp add: short_states)
  moreover from tick_step [OF short_reachable(2) ph(1) lo(1) hi(1)] have
    "\<exists>s'. tick shortRunning0 = Some s' \<and> secondsRemaining s' = 15
        \<and> currentStepIndex s' = 1 \<and> phase s' = Running \<and> length (timers s') = 1"
    by (auto simp add: short_states)
  moreover from tick_step [OF short_reachable(4) ph(3) lo(3) hi(3)] have
    "\<exists>s'. tick shortRunning2 = Some s' \<and> secondsRemaining s' = 0
        \<and> currentStepIndex s' = 2 \<and> phase s' = Finished \<and> timers s' = []"
    by (auto simp add: short_states)
  ultimately show ?thesis by blast
qed

text \<open>Claim C5. With a non-empty step list and the current index on the last step, in a state
  that is not Finished and whatever \<^verbatim>\<open>secondsRemaining\<close> is, \<^verbatim>\<open>skipStep\<close> returns a state whose
  phase is Finished and whose \<^verbatim>\<open>secondsRemaining\<close> is 0; the index and the steps are unchanged
  and the timer is stopped.\<close>

theorem skipStep_last_finishes:
  assumes "steps s \<noteq> []" and "phase s \<noteq> Finished"
    and "currentStepIndex s = length (steps s) - 1"
  shows "\<exists>s'. skipStep s = Some s' \<and> phase s' = Finished \<and> secondsRemaining s' = 0
    \<and> currentStepIndex s' = currentStepIndex s \<and> steps s' = steps s
    \<and> \<not> isRunning s' \<and> intervalId s' = None"
proof -
  from assms(1,3) have "Suc (currentStepIndex s) \<ge> length (steps s)"
    by simp
  from goToNextStep_finish [OF this, of "isRunning s"] assms(1) show ?thesis
    by (simp add: skipStep_def phase_def)
qed

theorem skipStep_last_finishes_witness:
  "\<exists>s'. skipStep (exampleRunning 6 30) = Some s' \<and> phase s' = Finished
      \<and> secondsRemaining s' = 0 \<and> currentStepIndex s' = 6"
proof -
  have h: "steps (exampleRunning 6 30) \<noteq> []" "phase (exampleRunning 6 30) \<noteq> Finished"
    "currentStepIndex (exampleRunning 6 30) = length (steps (exampleRunning 6 30)) - 1"
    by (simp_all add: buildSteps_exampleOneCircuit phase_Finished)
  from skipStep_last_finishes [OF h] show ?thesis
    by auto
qed

text \<open>Claim C7. In every state, pausing twice gives the state that pausing once gives; and
  when the phase is Running, start and resume return the state exactly as it was.\<close>

theorem pause_idempotent_start_noop:
  "(\<exists>s1. runOp Pause s = Some s1 \<and> runOp Pause s1 = Some s1)
   \<and> (phase s = Running \<longrightarrow> runOp Start s = Some s \<and> runOp Resume s = Some s)"
proof -
  have "stopTimer (stopTimer s) = stopTimer s"
    by (simp add: stopTimer_def clearInterval_def Let_def split: option.splits)
  moreover have "phase s = Running \<Longrightarrow> startTimer s = s"
    by (auto simp add: phase_def startTimer_def split: if_splits)
  ultimately show ?thesis by simp
qed

theorem pause_idempotent_start_noop_witness:
  "runOp Start (exampleRunning 2 10) = Some (exampleRunning 2 10)
   \<and> runOp Resume (exampleRunning 2 10) = Some (exampleRunning 2 10)
   \<and> (\<exists>s1. runOp Pause (exampleRunning 2 10) = Some s1 \<and> runOp Pause s1 = Some s1)"
proof -
  have "phase (exampleRunning 2 10) = Running"
    by (simp add: phase_Running)
  with pause_idempotent_start_noop [of "exampleRunning 2 10"] show ?thesis
    by blast
qed

text \<open>Claim C8. From a state whose current index is inside the step list, each of start, tick,
  pause, resume, skip and reset returns a state with the same steps whose current index is
  inside the step list again; and whenever the operation takes the phase to Finished, the
  index is the last one, \<open>length steps - 1\<close>.\<close>

theorem runOp_index_in_range:
  assumes "currentStepIndex s < length (steps s)"
  shows "\<exists>s'. runOp op s = Some s' \<and> steps s' = steps s
    \<and> currentStepIndex s' < length (steps s')
    \<and> (phase s' = Finished \<and> phase s \<noteq> Finished \<longrightarrow>
         currentStepIndex s' = length (steps s) - 1)"
proof -
  have go: "\<exists>s'. goToNextStep ac t = Some s' \<and> steps s' = steps t
      \<and> currentStepIndex s' < length (steps s')
      \<and> (isFinished s' \<longrightarrow> currentStepIndex s' = length (steps t) - 1)"
    if "currentStepIndex t < length (steps t)" for ac t
  proof (cases "Suc (currentStepIndex t) < length (steps t)")
    case True
    from goToNextStep_advance [OF this, of ac] obtain s2 where
      s2: "setStep (Suc (currentStepIndex t))
               (if currentStepIndex t < length (steps t)
                  then Some (steps t ! currentStepIndex t) else None)
               ((stopTimer t)\<lparr>isFinished := False\<rparr>) = Some s2"
      and g: "goToNextStep ac t = Some (if ac then startTimer s2 else s2)"
      by auto
    from True have "Suc (currentStepIndex t) < length (steps ((stopTimer t)\<lparr>isFinished := False\<rparr>))"
      by simp
    from setStep_Some [OF this, of "if currentStepIndex t < length (steps t)
                  then Some (steps t ! currentStepIndex t) else None"] s2
    have "steps s2 = steps t" "currentStepIndex s2 = Suc (currentStepIndex t)" "\<not> isFinished s2"
      by auto
    with g True show ?thesis by simp
  next
    case False
    with that have le: "Suc (currentStepIndex t) \<ge> length (steps t)"
      and eq: "currentStepIndex t = length (steps t) - 1" by simp_all
    from goToNextStep_finish [OF le, of ac] that eq show ?thesis by simp
  qed
  have ne: "steps s \<noteq> []"
  proof
    assume "steps s = []"
    with assms show False by simp
  qed
  show ?thesis
  proof (cases op)
    case Start
    with assms show ?thesis by (simp add: phase_Finished)
  next
    case Resume
    with assms show ?thesis by (simp add: phase_Finished)
  next
    case Pause
    with assms show ?thesis by (simp add: phase_Finished)
  next
    case Tick
    let ?s2 = "cues (s\<lparr>secondsRemaining := roundToDouble (secondsRemaining s - 1)\<rparr>)"
    show ?thesis
    proof (cases "roundToDouble (secondsRemaining s - 1) > 0")
      case True
      with assms Tick show ?thesis by (simp add: tick_counting phase_Finished)
    next
      case False
      then have t: "tick s = goToNextStep True ?s2" by (simp add: tick_exhausted)
      from assms have "currentStepIndex ?s2 < length (steps ?s2)" by simp
      from go [OF this, of True] obtain s' where
        "goToNextStep True ?s2 = Some s'" "steps s' = steps s"
        "currentStepIndex s' < length (steps s')"
        "isFinished s' \<longrightarrow> currentStepIndex s' = length (steps s) - 1"
        by auto
      with t Tick show ?thesis
        by (simp add: phase_Finished)
    qed
  next
    case Skip
    from go [OF assms, of "isRunning s"] obtain s' where
      "goToNextStep (isRunning s) s = Some s'" "steps s' = steps s"
      "currentStepIndex s' < length (steps s')"
      "isFinished s' \<longrightarrow> currentStepIndex s' = length (steps s) - 1"
      by auto
    with ne Skip show ?thesis
      by (simp add: skipStep_def phase_Finished)
  next
    case Reset
    let ?s1 = "(stopTimer s)\<lparr>lastHalfCueStepIndex := None, lastFinalCueKey := None,
                        lastSpokenRestStepIndex := None\<rparr>"
    from ne have "0 < length (steps ?s1)" by simp
    from setStep_Some [OF this, of None] obtain s2 where
      s2: "setStep 0 None ?s1 = Some s2" "steps s2 = steps s" "currentStepIndex s2 = 0"
      by auto
    from ne s2(1) have "resetWorkout s = Some (s2\<lparr>hasStarted := False, isFinished := False\<rparr>)"
      by (simp add: resetWorkout_def Let_def)
    with ne s2(2,3) Reset show ?thesis
      by (simp add: phase_Finished)
  qed
qed

theorem runOp_index_in_range_witness:
  "\<exists>s'. runOp Skip (exampleRunning 6 30) = Some s' \<and> currentStepIndex s' = 6
      \<and> currentStepIndex s' < length (steps s') \<and> phase s' = Finished"
proof -
  have h: "currentStepIndex (exampleRunning 6 30) < length (steps (exampleRunning 6 30))"
    by (simp add: buildSteps_exampleOneCircuit)
  have l: "length (steps (exampleRunning 6 30)) - 1 = 6"
    by (simp add: buildSteps_exampleOneCircuit)
  have n: "phase (exampleRunning 6 30) \<noteq> Finished"
    by (simp add: phase_Finished)
  have "Suc (currentStepIndex (exampleRunning 6 30)) \<ge> length (steps (exampleRunning 6 30))"
    by (simp add: buildSteps_exampleOneCircuit)
  from goToNextStep_finish [OF this, of True]
  have f: "\<exists>s'. runOp Skip (exampleRunning 6 30) = Some s' \<and> phase s' = Finished"
    by (simp add: skipStep_def phase_Finished buildSteps_exampleOneCircuit)
  from runOp_index_in_range [OF h, of Skip] f n l show ?thesis
    by auto
qed

lemma skipStep_finished_wellFormed:
  assumes "wellFormed s" and "steps s \<noteq> []" and "phase s = Finished"
  shows "skipStep s = Some s"
proof -
  from assms(3) have fin: "isFinished s"
    by (auto simp add: phase_def split: if_splits)
  with assms(1) have f: "\<not> isRunning s" "intervalId s = None" "secondsRemaining s = 0"
    "Suc (currentStepIndex s) = length (steps s)"
    by (auto simp add: wellFormed_def)
  then have st: "stopTimer s = s"
    by (cases s) (simp add: stopTimer_def)
  from f have "Suc (currentStepIndex s) \<ge> length (steps s)" by simp
  from goToNextStep_finish [OF this, of "isRunning s"] st fin f assms(2) show ?thesis
    by (cases s) (simp add: skipStep_def)
qed

text \<open>Claim C9. In a reachable state whose phase is Finished, \<^verbatim>\<open>skipStep\<close> returns the very
  same state: phase, \<^verbatim>\<open>secondsRemaining\<close>, index, interval handle and registered intervals
  included. (The step list of such a state is not empty.)\<close>

theorem skipStep_finished_unchanged:
  assumes "reachable s" and "phase s = Finished"
  shows "skipStep s = Some s \<and> steps s \<noteq> []"
proof -
  from assms(1) have wf: "wellFormed s"
    by (rule reachable_wellFormed)
  with assms(2) have "Suc (currentStepIndex s) = length (steps s)"
    by (simp add: wellFormed_def phase_Finished)
  then have ne: "steps s \<noteq> []"
    by auto
  with skipStep_finished_wellFormed [OF wf ne assms(2)] show ?thesis
    by simp
qed

theorem skipStep_finished_unchanged_witness:
  "phase shortFinished = Finished \<and> skipStep shortFinished = Some shortFinished"
proof -
  have ph: "phase shortFinished = Finished"
    by (simp add: phase_Finished short_states)
  with skipStep_finished_unchanged [OF short_reachable(5) ph] show ?thesis
    by simp
qed

section \<open>Properties of the progress query\<close>

lemma countLoop_filter:
  assumes "stepIndex < length sts" and "i \<le> Suc stepIndex"
  shows "countLoop sts cid stepIndex i n =
     n + length (filter (\<lambda>st. circuitId st = cid \<and> stepType st = Exercise)
                   (take (Suc stepIndex - i) (drop i sts)))"
  using assms
proof (induction sts cid stepIndex i n rule: countLoop.induct)
  case (1 sts cid stepIndex i n)
  show ?case
  proof (cases "i \<le> stepIndex")
    case True
    with "1.prems" have il: "i < length sts" by simp
    from True have d: "Suc stepIndex - i = Suc (stepIndex - i)" by simp
    from il have c: "drop i sts = sts ! i # drop (Suc i) sts"
      by (simp add: Cons_nth_drop_Suc)
    from True "1.prems" "1.IH"
    have "countLoop sts cid stepIndex (i + 1)
            (if circuitId (sts ! i) = cid \<and> stepType (sts ! i) = Exercise then n + 1 else n)
          = (if circuitId (sts ! i) = cid \<and> stepType (sts ! i) = Exercise then n + 1 else n)
            + length (filter (\<lambda>st. circuitId st = cid \<and> stepType st = Exercise)
                   (take (Suc stepIndex - (i + 1)) (drop (i + 1) sts)))"
      by simp
    with True show ?thesis
      by (subst countLoop.simps, subst d, subst c) simp
  next
    case False
    with "1.prems" have "i = Suc stepIndex" by simp
    then show ?thesis
      by (subst countLoop.simps) simp
  qed
qed

lemma filter_take_length: "length (filter P (take k xs)) \<le> length (filter P xs)"
proof -
  have "length (filter P xs) = length (filter P (take k xs)) + length (filter P (drop k xs))"
    by (metis append_take_drop_id filter_append length_append)
  then show ?thesis by simp
qed


lemma ceiling_div_bounds:
  fixes cnt epr :: nat and R :: int
  assumes "0 < cnt" and "0 < epr" and "int cnt \<le> R * int epr"
  shows "1 \<le> \<lceil>real cnt / real epr\<rceil>" and "\<lceil>real cnt / real epr\<rceil> \<le> R"
proof -
  from assms(1,2) have "0 < real cnt / real epr" by simp
  then show "1 \<le> \<lceil>real cnt / real epr\<rceil>" by (simp add: one_le_ceiling)
  from assms(3) have "real_of_int (int cnt) \<le> real_of_int (R * int epr)"
    by (simp only: of_int_le_iff)
  then have "real cnt \<le> real_of_int R * real epr" by simp
  with assms(2) have "real cnt / real epr \<le> real_of_int R"
    by (simp add: pos_divide_le_eq)
  then show "\<lceil>real cnt / real epr\<rceil> \<le> R" by (simp add: ceiling_le_iff)
qed

lemma getProgressForStep_in_range:
  assumes "workout s = Some w" and "0 \<le> i" and "i < int (length (steps s))"
  shows "getProgressForStep s i =
     (let cid = circuitId (steps s ! nat i);
          exs = (if cid = B then exercises (circuitB w) else exercises (circuitA w));
          reps = (if cid = B then repeats (circuitB w) else repeats (circuitA w));
          cnt = length (filter (\<lambda>st. circuitId st = cid \<and> stepType st = Exercise)
                          (take (nat i + 1) (steps s)))
      in if exs = [] then None
         else if cnt = 0 then
           Some \<lparr>pCircuitId = cid, round = 1, exercise = 1,
                 exercisesPerRound = length exs, totalRounds = reps\<rparr>
         else
           Some \<lparr>pCircuitId = cid, round = \<lceil>real cnt / real (length exs)\<rceil>,
                 exercise = ((cnt - 1) mod length exs) + 1,
                 exercisesPerRound = length exs, totalRounds = reps\<rparr>)"
proof -
  from assms have n: "nat i < length (steps s)" by simp
  have c: "countLoop (steps s) cid (nat i) 0 0 =
      length (filter (\<lambda>st. circuitId st = cid \<and> stepType st = Exercise)
                (take (nat i + 1) (steps s)))" for cid
    using countLoop_filter [OF n, of 0 cid 0] by simp
  from assms show ?thesis
    by (simp add: getProgressForStep_def Let_def c circuit.defs)
qed


lemma getProgressForStep_out_of_range:
  "i < 0 \<or> int (length (steps s)) \<le> i \<Longrightarrow> getProgressForStep s i = None"
  by (auto simp add: getProgressForStep_def split: option.splits)

lemma validWorkout_exampleOneCircuit: "validWorkout exampleOneCircuit"
  by (simp add: validWorkout_def validExercise_def exampleOneCircuit_def)

text \<open>Claim C6. For a workout that passes the setup screen's checks, the steps built from it
  and an index inside them, \<^verbatim>\<open>getProgressForStep\<close> returns a result: its exercise position
  lies between 1 and \<open>exercisesPerRound\<close> and its round between 1 and \<open>totalRounds\<close>, both
  taken from the circuit of the step at the index. With \<open>exerciseCount\<close> the number of exercise
  steps of that circuit up to and including the index, the result is round 1, exercise 1 when
  \<open>exerciseCount\<close> is 0, and otherwise the round is
  \<open>\<lceil>exerciseCount / exercisesPerRound\<rceil>\<close> and the exercise position is
  \<open>((exerciseCount - 1) mod exercisesPerRound) + 1\<close>. For an index outside the step list, and
  for an index whose circuit has no exercises, the result is unavailable.\<close>

theorem getProgressForStep_bounds:
  "(validWorkout w \<and> workout s = Some w \<and> steps s = buildSteps w
      \<and> 0 \<le> i \<and> i < int (length (steps s)) \<longrightarrow>
      (\<exists>p. getProgressForStep s i = Some p
         \<and> 1 \<le> exercise p \<and> exercise p \<le> exercisesPerRound p
         \<and> 1 \<le> round p \<and> round p \<le> totalRounds p
         \<and> pCircuitId p = circuitId (steps s ! nat i)
         \<and> exercisesPerRound p =
             length (if pCircuitId p = B then exercises (circuitB w) else exercises (circuitA w))
         \<and> totalRounds p =
             (if pCircuitId p = B then repeats (circuitB w) else repeats (circuitA w))
         \<and> (let exerciseCount =
                   length (filter (\<lambda>st. circuitId st = pCircuitId p \<and> stepType st = Exercise)
                             (take (nat i + 1) (steps s)))
            in if exerciseCount = 0 then round p = 1 \<and> exercise p = 1
               else round p = \<lceil>real exerciseCount / real (exercisesPerRound p)\<rceil>
                  \<and> exercise p = ((exerciseCount - 1) mod exercisesPerRound p) + 1)))
   \<and> (i < 0 \<or> int (length (steps s)) \<le> i \<longrightarrow> getProgressForStep s i = None)
   \<and> (workout s = Some w \<and> 0 \<le> i \<and> i < int (length (steps s))
        \<and> (if circuitId (steps s ! nat i) = B
            then exercises (circuitB w) else exercises (circuitA w)) = []
      \<longrightarrow> getProgressForStep s i = None)"
proof (intro conjI impI)
  assume "i < 0 \<or> int (length (steps s)) \<le> i"
  then show "getProgressForStep s i = None"
    by (rule getProgressForStep_out_of_range)
next
  assume "workout s = Some w \<and> 0 \<le> i \<and> i < int (length (steps s))
        \<and> (if circuitId (steps s ! nat i) = B
            then exercises (circuitB w) else exercises (circuitA w)) = []"
  then show "getProgressForStep s i = None"
    by (simp add: getProgressForStep_in_range Let_def)
next
  assume h: "validWorkout w \<and> workout s = Some w \<and> steps s = buildSteps w
      \<and> 0 \<le> i \<and> i < int (length (steps s))"
  define cid where "cid = circuitId (steps s ! nat i)"
  define exs where "exs = (if cid = B then exercises (circuitB w) else exercises (circuitA w))"
  define reps where "reps = (if cid = B then repeats (circuitB w) else repeats (circuitA w))"
  define cnt where "cnt = length (filter (\<lambda>st. circuitId st = cid \<and> stepType st = Exercise)
                          (take (nat i + 1) (steps s)))"
  from h have v: "validWorkout w" and wo: "workout s = Some w"
    and st: "steps s = buildSteps w" and i0: "0 \<le> i" and il: "i < int (length (steps s))"
    by blast+
  from i0 il have n: "nat i < length (steps s)" by linarith
  then have mem: "steps s ! nat i \<in> set (buildSteps w)"
    unfolding st by (rule nth_mem)
  have en: "cid = B \<Longrightarrow> enabled (circuitB w)"
    using buildSteps_circuitB_enabled [OF mem] by (simp add: cid_def)
  from v en have ne: "exs \<noteq> []" and r1: "1 \<le> reps"
    by (auto simp add: validWorkout_def exs_def reps_def)
  have total: "length (filter (\<lambda>st. circuitId st = cid \<and> stepType st = Exercise) (buildSteps w))
      = nat reps * length exs"
  proof (cases cid)
    case A
    then show ?thesis
      by (simp add: buildSteps_circuit_exercise_count exs_def reps_def)
  next
    case B
    with en show ?thesis
      by (simp add: buildSteps_circuit_exercise_count exs_def reps_def)
  qed
  have "cnt \<le> length (filter (\<lambda>st. circuitId st = cid \<and> stepType st = Exercise) (buildSteps w))"
    unfolding cnt_def st by (rule filter_take_length)
  with total have "cnt \<le> nat reps * length exs" by simp
  then have "int cnt \<le> int (nat reps * length exs)" by (simp only: of_nat_le_iff)
  with r1 have le: "int cnt \<le> reps * int (length exs)" by simp
  from ne have epr: "0 < length exs" by simp
  from wo i0 il have g: "getProgressForStep s i =
     (if cnt = 0 then
           Some \<lparr>pCircuitId = cid, round = 1, exercise = 1,
                 exercisesPerRound = length exs, totalRounds = reps\<rparr>
         else
           Some \<lparr>pCircuitId = cid, round = \<lceil>real cnt / real (length exs)\<rceil>,
                 exercise = ((cnt - 1) mod length exs) + 1,
                 exercisesPerRound = length exs, totalRounds = reps\<rparr>)"
    using ne by (simp add: getProgressForStep_in_range Let_def cid_def exs_def reps_def cnt_def)
  have folded:
    "circuitId (steps s ! nat i) = cid"
    "(if cid = B then exercises (circuitB w) else exercises (circuitA w)) = exs"
    "(if cid = B then repeats (circuitB w) else repeats (circuitA w)) = reps"
    "length (filter (\<lambda>st. circuitId st = cid \<and> stepType st = Exercise)
       (take (Suc (nat i)) (steps s))) = cnt"
    by (simp_all add: cid_def exs_def reps_def cnt_def)
  show "\<exists>p. getProgressForStep s i = Some p
         \<and> 1 \<le> exercise p \<and> exercise p \<le> exercisesPerRound p
         \<and> 1 \<le> round p \<and> round p \<le> totalRounds p
         \<and> pCircuitId p = circuitId (steps s ! nat i)
         \<and> exercisesPerRound p =
             length (if pCircuitId p = B then exercises (circuitB w) else exercises (circuitA w))
         \<and> totalRounds p =
             (if pCircuitId p = B then repeats (circuitB w) else repeats (circuitA w))
         \<and> (let exerciseCount =
                   length (filter (\<lambda>st. circuitId st = pCircuitId p \<and> stepType st = Exercise)
                             (take (nat i + 1) (steps s)))
            in if exerciseCount = 0 then round p = 1 \<and> exercise p = 1
               else round p = \<lceil>real exerciseCount / real (exercisesPerRound p)\<rceil>
                  \<and> exercise p = ((exerciseCount - 1) mod exercisesPerRound p) + 1)"
  proof (cases "cnt = 0")
    case True
    with folded(4) have z: "filter (\<lambda>st. circuitId st = cid \<and> stepType st = Exercise)
       (take (Suc (nat i)) (steps s)) = []"
      by simp
    from True g epr r1 show ?thesis
      by (simp add: Let_def folded(1-3) z Suc_le_eq)
  next
    case False
    then have pos: "0 < cnt" by simp
    from epr have m: "(cnt - 1) mod length exs < length exs" by simp
    from folded(4) pos have nz: "filter (\<lambda>st. circuitId st = cid \<and> stepType st = Exercise)
       (take (Suc (nat i)) (steps s)) \<noteq> []"
      by auto
    from False g m ceiling_div_bounds [OF pos epr le] show ?thesis
      by (simp add: Let_def folded nz Suc_le_eq)
  qed
qed

theorem getProgressForStep_bounds_witness:
  "(\<exists>p. getProgressForStep (exampleRunning 4 45) 4 = Some p
        \<and> round p = 2 \<and> totalRounds p = 2 \<and> exercise p = 1 \<and> exercisesPerRound p = 2)
   \<and> getProgressForStep (exampleRunning 4 45) 7 = None
   \<and> getProgressForStep
        ((exampleRunning 0 30)\<lparr>steps :=
           [\<lparr>stepType = TransitionRest, label = ''Transition rest'',
             durationSeconds = 30, circuitId = B\<rparr>]\<rparr>) 0 = None"
proof -
  let ?s = "exampleRunning 4 45"
  let ?t = "(exampleRunning 0 30)\<lparr>steps :=
           [\<lparr>stepType = TransitionRest, label = ''Transition rest'',
             durationSeconds = 30, circuitId = B\<rparr>]\<rparr>"
  have wo: "workout ?s = Some exampleOneCircuit" "workout ?t = Some exampleOneCircuit"
    by (simp_all add: exampleRunning_def)
  have h1: "validWorkout exampleOneCircuit \<and> workout ?s = Some exampleOneCircuit
      \<and> steps ?s = buildSteps exampleOneCircuit \<and> (0::int) \<le> 4 \<and> 4 < int (length (steps ?s))"
    by (simp add: validWorkout_exampleOneCircuit wo buildSteps_exampleOneCircuit)
  have h2: "(7::int) < 0 \<or> int (length (steps ?s)) \<le> 7"
    by (simp add: buildSteps_exampleOneCircuit)
  have h3: "workout ?t = Some exampleOneCircuit \<and> (0::int) \<le> 0 \<and> 0 < int (length (steps ?t))
        \<and> (if circuitId (steps ?t ! nat 0) = B
            then exercises (circuitB exampleOneCircuit)
            else exercises (circuitA exampleOneCircuit)) = []"
    by (simp add: wo) (simp add: exampleOneCircuit_def)
  have v: "exercises (circuitA exampleOneCircuit) =
      [\<lparr>name = ''Squats'', secondsOverride = None\<rparr>, \<lparr>name = ''Plank'', secondsOverride = None\<rparr>]"
    "repeats (circuitA exampleOneCircuit) = 2"
    by (simp_all add: exampleOneCircuit_def)
  from getProgressForStep_bounds [of exampleOneCircuit ?s 4] h1
  have "\<exists>p. getProgressForStep ?s 4 = Some p
        \<and> round p = 2 \<and> totalRounds p = 2 \<and> exercise p = 1 \<and> exercisesPerRound p = 2"
    by (auto simp add: buildSteps_exampleOneCircuit v Let_def)
  moreover from getProgressForStep_bounds [of exampleOneCircuit ?s 7] h2
  have "getProgressForStep ?s 7 = None"
    by blast
  moreover from getProgressForStep_bounds [of exampleOneCircuit ?t 0] h3
  have "getProgressForStep ?t 0 = None"
    by blast
  ultimately show ?thesis by blast
qed

end
